theory Spec2Isabelle
  imports Complex_Main "HOL-Library.Char_ord" "HOL-Library.Word" "HOL-Library.Log_Nat"
begin

unbundle bit_operations_syntax

chapter \<open>The model\<close>

section \<open>Strings\<close>

text \<open>
  A Go \<open>string\<close> is a sequence of bytes, and \<open>len\<close> counts bytes: the model is
  \<^typ>\<open>string\<close>, a list of 8-bit characters. The functions of package \<open>strings\<close>
  that the program calls are written out below.
\<close>

text \<open>\<open>strings.HasPrefix(s, prefix)\<close>.\<close>

fun HasPrefix :: "string \<Rightarrow> string \<Rightarrow> bool" where
  "HasPrefix s [] = True"
| "HasPrefix [] (p # ps) = False"
| "HasPrefix (c # cs) (p # ps) = (c = p \<and> HasPrefix cs ps)"

text \<open>\<open>strings.Contains(s, substr)\<close>: \<open>substr\<close> occurs in \<open>s\<close> at some offset.\<close>

fun Contains :: "string \<Rightarrow> string \<Rightarrow> bool" where
  "Contains [] sub = HasPrefix [] sub"
| "Contains (c # cs) sub = (HasPrefix (c # cs) sub \<or> Contains cs sub)"

text \<open>
  \<open>strings.Split(s, sep)\<close> for a separator of one byte: the pieces between the
  separators, \<open>n + 1\<close> pieces for \<open>n\<close> separators (so the empty string gives one
  empty piece).
\<close>

fun Split :: "string \<Rightarrow> char \<Rightarrow> string list" where
  "Split [] sep = [[]]"
| "Split (c # cs) sep =
     (if c = sep then [] # Split cs sep
      else (case Split cs sep of
              [] \<Rightarrow> [[c]]
            | p # ps \<Rightarrow> (c # p) # ps))"

text \<open>
  \<open>strings.ReplaceAll(s, old, new)\<close> for an \<open>old\<close> of one byte: every occurrence of
  the byte is replaced by the string \<open>new\<close>.
\<close>

definition ReplaceAll :: "string \<Rightarrow> char \<Rightarrow> string \<Rightarrow> string" where
  "ReplaceAll s old new = concat (map (\<lambda>c. if c = old then new else [c]) s)"

text \<open>
  \<open>strings.ToLower\<close> and \<open>strings.TrimSpace\<close> work on Unicode text: they map
  every letter that has a lower case (the Kelvin sign U+212A to \<open>k\<close>) and strip every
  Unicode white space (the no-break space U+00A0). Their tables are part of the Go
  library and not of this repository, so the two functions are parameters of the model:
  whatever is proved of a function that takes them holds for Go's functions.
\<close>

record go_strings =
  ToLower :: "string \<Rightarrow> string"
  TrimSpace :: "string \<Rightarrow> string"

text \<open>
  On a string of ASCII bytes the two functions are known without the tables:
  \<open>ToLower\<close> changes \<open>A\<close>..\<open>Z\<close> only, and \<open>TrimSpace\<close> strips \<open>\t \n \v \f \r\<close>
  and the blank from both ends. \<open>ascii_strings\<close> is used to evaluate the model at
  ASCII inputs, and only there.
\<close>

definition asciiSpace :: "char \<Rightarrow> bool" where
  "asciiSpace c = (c = CHR 0x09 \<or> c = CHR 0x0A \<or> c = CHR 0x0B \<or> c = CHR 0x0C \<or> c = CHR 0x0D
                   \<or> c = CHR '' '')"

definition asciiLower :: "char \<Rightarrow> char" where
  "asciiLower c = (if CHR ''A'' \<le> c \<and> c \<le> CHR ''Z'' then char_of (of_char c + (32::nat)) else c)"

definition ascii_strings :: go_strings where
  "ascii_strings =
     \<lparr>ToLower = map asciiLower,
      TrimSpace = (\<lambda>s. rev (dropWhile asciiSpace (rev (dropWhile asciiSpace s))))\<rparr>"

section \<open>Bucket-name validation (pkg/permutation/engine.go)\<close>

text \<open>
  The compiled regular expression \<open>validBucketName\<close>. The pattern
  \<open>^[a-z0-9][a-z0-9.-]{1,61}[a-z0-9]$\<close> is a sequence of character classes, each with
  a repetition range, anchored at both ends. An item of a class is a range or a single
  character; \<open>MatchString\<close> asks for a way to cut the whole string into consecutive
  blocks, one per class, whose lengths lie in the repetition ranges.
\<close>

datatype class_item = Range char char | Single char

fun in_item :: "class_item \<Rightarrow> char \<Rightarrow> bool" where
  "in_item (Range lo hi) c = (lo \<le> c \<and> c \<le> hi)"
| "in_item (Single x) c = (c = x)"

definition in_class :: "class_item list \<Rightarrow> char \<Rightarrow> bool" where
  "in_class items c = list_ex (\<lambda>i. in_item i c) items"

type_synonym regex_atom = "class_item list \<times> nat \<times> nat"

fun MatchString :: "regex_atom list \<Rightarrow> string \<Rightarrow> bool" where
  "MatchString [] s = (s = [])"
| "MatchString ((items, lo, hi) # rest) s =
     list_ex (\<lambda>k. list_all (in_class items) (take k s) \<and> MatchString rest (drop k s))
       [lo ..< Suc (min hi (length s))]"

definition validBucketName :: "regex_atom list" where
  "validBucketName =
     [([Range CHR ''a'' CHR ''z'', Range CHR ''0'' CHR ''9''], 1, 1),
      ([Range CHR ''a'' CHR ''z'', Range CHR ''0'' CHR ''9'', Single CHR ''.'', Single CHR ''-''], 1, 61),
      ([Range CHR ''a'' CHR ''z'', Range CHR ''0'' CHR ''9''], 1, 1)]"

text \<open>
  \<open>isIPAddress\<close>: exactly four pieces between dots, each of one to three bytes, all of
  them digits. The loops return \<open>false\<close> at the first piece or byte that fails, which
  is \<open>list_all\<close> of the negated tests. (Go ranges over the runes of a piece; a byte
  outside ASCII decodes to a rune above \<open>'9'\<close>, as the byte itself compares here.)
\<close>

definition isIPAddress :: "string \<Rightarrow> bool" where
  "isIPAddress s =
     (let parts = Split s CHR ''.'' in
      if length parts \<noteq> 4 then False
      else list_all (\<lambda>part.
             \<not> (length part = 0 \<or> length part > 3) \<and>
             list_all (\<lambda>c. \<not> (c < CHR ''0'' \<or> c > CHR ''9'')) part) parts)"

text \<open>\<open>IsValidBucketName\<close>, with the checks in the order of the source.\<close>

definition IsValidBucketName :: "string \<Rightarrow> bool" where
  "IsValidBucketName name =
     (if length name < 3 \<or> length name > 63 then False
      else if isIPAddress name then False
      else if Contains name ''..'' then False
      else MatchString validBucketName name)"

text \<open>
  The filter in the words of the specification, to compare the code with: the shape
  the pattern describes, an occurrence of two dots, and four dot-separated groups of
  one to three digits.
\<close>

definition alnum_spec :: "char \<Rightarrow> bool" where
  "alnum_spec c = ((CHR ''a'' \<le> c \<and> c \<le> CHR ''z'') \<or> (CHR ''0'' \<le> c \<and> c \<le> CHR ''9''))"

definition middle_spec :: "string \<Rightarrow> bool" where
  "middle_spec mid =
     (1 \<le> length mid \<and> length mid \<le> 61 \<and>
      (\<forall>m \<in> set mid. alnum_spec m \<or> m = CHR ''.'' \<or> m = CHR ''-''))"

definition pattern_spec :: "string \<Rightarrow> bool" where
  "pattern_spec name =
     (\<exists>c mid d. name = c # mid @ [d] \<and> alnum_spec c \<and> middle_spec mid \<and> alnum_spec d)"

definition dotdot_spec :: "string \<Rightarrow> bool" where
  "dotdot_spec name = (\<exists>xs ys. name = xs @ ''..'' @ ys)"

definition digits_group_spec :: "string \<Rightarrow> bool" where
  "digits_group_spec g =
     (1 \<le> length g \<and> length g \<le> 3 \<and> (\<forall>c \<in> set g. CHR ''0'' \<le> c \<and> c \<le> CHR ''9''))"

definition ipv4_shape_spec :: "string \<Rightarrow> bool" where
  "ipv4_shape_spec name =
     (\<exists>a b c d. name = a @ ''.'' @ b @ ''.'' @ c @ ''.'' @ d \<and>
        digits_group_spec a \<and> digits_group_spec b \<and> digits_group_spec c \<and> digits_group_spec d)"

definition valid_name_spec :: "string \<Rightarrow> bool" where
  "valid_name_spec name =
     (3 \<le> length name \<and> length name \<le> 63 \<and> pattern_spec name \<and>
      \<not> dotdot_spec name \<and> \<not> ipv4_shape_spec name)"

section \<open>Permutation engine (pkg/permutation/engine.go)\<close>

record Engine =
  Suffixes :: "string list"
  Prefixes :: "string list"
  Separators :: "string list"
  Years :: "string list"
  Regions :: "string list"

definition Default :: Engine where
  "Default = \<lparr>
     Suffixes = ['''', ''-dev'', ''-prod'', ''-staging'', ''-backup'', ''-backups'',
       ''-logs'', ''-assets'', ''-internal'', ''-public'', ''-private'',
       ''-data'', ''-files'', ''-media'', ''-static'', ''-cdn'',
       ''-api'', ''-web'', ''-app'', ''-test'', ''-temp'',
       ''-archive'', ''-old'', ''-new'', ''-v2'', ''-beta''],
     Prefixes = ['''', ''dev-'', ''prod-'', ''staging-'', ''backup-'', ''test-'',
       ''internal-'', ''public-'', ''private-'', ''temp-'', ''old-''],
     Separators = [''-'', ''.''],
     Years = ['''', ''-2022'', ''-2023'', ''-2024'', ''-2025'',
       ''-22'', ''-23'', ''-24'', ''-25''],
     Regions = ['''', ''-us-east-1'', ''-us-east-2'', ''-us-west-1'', ''-us-west-2'',
       ''-eu-west-1'', ''-eu-west-2'', ''-eu-central-1'',
       ''-ap-south-1'', ''-ap-northeast-1'', ''-ap-southeast-1'']
   \<rparr>"

text \<open>
  The closure \<open>add\<close> of \<open>Generate\<close> and \<open>GenerateFromWordlist\<close> works on two
  variables of the enclosing function: the map \<open>seen\<close>, used as a set of strings, and
  the slice \<open>results\<close>. The model passes the pair and returns it updated.
\<close>

type_synonym gen_state = "string set \<times> string list"

definition add :: "string \<Rightarrow> gen_state \<Rightarrow> gen_state" where
  "add name st =
     (if name \<notin> fst st \<and> IsValidBucketName name
      then (insert name (fst st), snd st @ [name])
      else st)"

text \<open>
  \<open>Generate\<close>: one \<open>foldl\<close> for each \<open>for ... range\<close> loop, in the order of the
  source; the state after each block is the state the next block starts from. A
  \<open>nil\<close> slice is the empty list.
\<close>

definition Generate :: "go_strings \<Rightarrow> Engine \<Rightarrow> string \<Rightarrow> string list" where
  "Generate lib e seed0 =
     (let seed = ToLower lib (TrimSpace lib seed0) in
      if seed = [] then []
      else
        let st = add seed ({}, []);
            st = foldl (\<lambda>st prefix. add (prefix @ seed) st) st (Prefixes e);
            st = foldl (\<lambda>st suffix. add (seed @ suffix) st) st (Suffixes e);
            st = foldl (\<lambda>st prefix.
                   foldl (\<lambda>st suffix. add (prefix @ seed @ suffix) st) st (Suffixes e))
                   st (Prefixes e);
            st = foldl (\<lambda>st year. add (seed @ year) st) st (Years e);
            st = foldl (\<lambda>st suffix.
                   foldl (\<lambda>st year. add (seed @ suffix @ year) st) st (Years e))
                   st (Suffixes e);
            st = foldl (\<lambda>st region. add (seed @ region) st) st (Regions e);
            st = foldl (\<lambda>st suffix.
                   foldl (\<lambda>st region. add (seed @ suffix @ region) st) st (Regions e))
                   st (Suffixes e);
            st = foldl (\<lambda>st sep.
                   if sep \<noteq> ''-'' then
                     (let variant = ReplaceAll seed CHR ''-'' sep in
                      if variant \<noteq> seed then
                        foldl (\<lambda>st suffix. add (variant @ suffix) st) (add variant st) (Suffixes e)
                      else st)
                   else st)
                   st (Separators e)
        in snd st)"

text \<open>
  \<open>GenerateFromWordlist\<close>: the body of the loop over the words, then the loop. An
  empty word (after trimming) is skipped by \<open>continue\<close>.
\<close>

definition wordlist_step :: "go_strings \<Rightarrow> Engine \<Rightarrow> string \<Rightarrow> gen_state \<Rightarrow> string \<Rightarrow> gen_state" where
  "wordlist_step lib e seed st word0 =
     (let word = ToLower lib (TrimSpace lib word0) in
      if word = [] then st
      else
        let st = add word st;
            st = (if seed \<noteq> [] then
                    add (word @ ''.'' @ seed) (add (seed @ ''.'' @ word)
                      (add (word @ ''-'' @ seed) (add (seed @ ''-'' @ word) st)))
                  else st);
            st = foldl (\<lambda>st suffix.
                   let st = add (word @ suffix) st in
                   if seed \<noteq> [] then add (seed @ ''-'' @ word @ suffix) st else st)
                   st (Suffixes e);
            st = foldl (\<lambda>st year.
                   let st = add (word @ year) st in
                   if seed \<noteq> [] then add (seed @ ''-'' @ word @ year) st else st)
                   st (Years e)
        in st)"

definition GenerateFromWordlist :: "go_strings \<Rightarrow> Engine \<Rightarrow> string list \<Rightarrow> string \<Rightarrow> string list" where
  "GenerateFromWordlist lib e words seed0 =
     (let seed = ToLower lib (TrimSpace lib seed0) in
      snd (foldl (wordlist_step lib e seed) ({}, []) words))"

text \<open>
  The names offered to \<open>add\<close>, in the order in which the two functions offer them:
  the sequence of the calls of \<open>add\<close>, without the state.
\<close>

definition candidates :: "Engine \<Rightarrow> string \<Rightarrow> string list" where
  "candidates e seed =
     [seed]
     @ map (\<lambda>prefix. prefix @ seed) (Prefixes e)
     @ map (\<lambda>suffix. seed @ suffix) (Suffixes e)
     @ concat (map (\<lambda>prefix. map (\<lambda>suffix. prefix @ seed @ suffix) (Suffixes e)) (Prefixes e))
     @ map (\<lambda>year. seed @ year) (Years e)
     @ concat (map (\<lambda>suffix. map (\<lambda>year. seed @ suffix @ year) (Years e)) (Suffixes e))
     @ map (\<lambda>region. seed @ region) (Regions e)
     @ concat (map (\<lambda>suffix. map (\<lambda>region. seed @ suffix @ region) (Regions e)) (Suffixes e))
     @ concat (map (\<lambda>sep.
         if sep \<noteq> ''-'' \<and> ReplaceAll seed CHR ''-'' sep \<noteq> seed
         then ReplaceAll seed CHR ''-'' sep
              # map (\<lambda>suffix. ReplaceAll seed CHR ''-'' sep @ suffix) (Suffixes e)
         else []) (Separators e))"

definition word_candidates :: "Engine \<Rightarrow> string \<Rightarrow> string \<Rightarrow> string list" where
  "word_candidates e seed word =
     [word]
     @ (if seed \<noteq> [] then
          [seed @ ''-'' @ word, word @ ''-'' @ seed, seed @ ''.'' @ word, word @ ''.'' @ seed]
        else [])
     @ concat (map (\<lambda>suffix.
         (word @ suffix) # (if seed \<noteq> [] then [seed @ ''-'' @ word @ suffix] else [])) (Suffixes e))
     @ concat (map (\<lambda>year.
         (word @ year) # (if seed \<noteq> [] then [seed @ ''-'' @ word @ year] else [])) (Years e))"

definition wordlist_candidates :: "go_strings \<Rightarrow> Engine \<Rightarrow> string list \<Rightarrow> string \<Rightarrow> string list" where
  "wordlist_candidates lib e words seed =
     concat (map (\<lambda>word0.
       let word = ToLower lib (TrimSpace lib word0) in
       if word = [] then [] else word_candidates e seed word) words)"

text \<open>A run of calls of \<open>add\<close>, one for each name of a list, in order.\<close>

definition add_all :: "string list \<Rightarrow> gen_state \<Rightarrow> gen_state" where
  "add_all names st = foldl (\<lambda>st n. add n st) st names"

text \<open>
  What "first insertion wins, insertion order preserved" means for a sequence of
  insertions: each string stays at the place of its first occurrence.
\<close>

fun first_occurrences :: "'a list \<Rightarrow> 'a list" where
  "first_occurrences [] = []"
| "first_occurrences (x # xs) = x # first_occurrences (filter (\<lambda>y. y \<noteq> x) xs)"

text \<open>
  \<open>generateNames\<close> of cmd/s3finder/main.go, in the earlier revision, which calls
  \<open>GenerateFromWordlist\<close> (step "2. Wordlist + permutations"), without the AI step
  (\<open>cfg.AIEnabled\<close> false). The words are the lines \<open>config.LoadWordlist\<close> has read;
  \<open>None\<close> stands for no wordlist (\<open>cfg.Wordlist == ""\<close>). Its own \<open>add\<close> closure
  appends the names of a slice that were not seen before.
\<close>

definition add_names :: "string list \<Rightarrow> gen_state \<Rightarrow> gen_state" where
  "add_names names st =
     foldl (\<lambda>st name. if name \<notin> fst st then (insert name (fst st), snd st @ [name]) else st)
       st names"

definition generateNames :: "go_strings \<Rightarrow> string \<Rightarrow> string list option \<Rightarrow> string list" where
  "generateNames lib seed wordlist =
     (let engine = Default;
          st = add_names (Generate lib engine seed) ({}, []);
          st = (case wordlist of
                  None \<Rightarrow> st
                | Some words \<Rightarrow> add_names (GenerateFromWordlist lib engine words seed) st)
      in snd st)"




section \<open>float64 arithmetic\<close>

text \<open>
  The rates of the limiter are Go \<open>float64\<close> values. A finite \<open>float64\<close> is a
  rational number, and a product is the exact product rounded to 53 significant bits,
  ties to the even significand (IEEE 754 binary64, round to nearest even). The
  exponent is not bounded here: every product the limiter stores lies between 5 and the
  configured ceiling, far from overflow and underflow, and a product it does not store
  is only compared with the floor or the ceiling, on the same side of which the bounded
  result lies. The ceiling is taken to be a finite number (not NaN, not an infinity).
\<close>

definition round_half_even :: "rat \<Rightarrow> int" where
  "round_half_even q =
     (let f = \<lfloor>q\<rfloor>; r = q - of_int f in
      if r < 1 / 2 then f
      else if 1 / 2 < r then f + 1
      else if even f then f else f + 1)"

text \<open>
  For \<open>x > 0\<close>, the exponent \<open>e\<close> with \<open>2\<^sup>e \<le> x < 2\<^sup>e\<^sup>+\<^sup>1\<close>: the bit lengths of
  numerator and denominator give it up to one.
\<close>

definition floor_log2 :: "rat \<Rightarrow> int" where
  "floor_log2 x =
     (let e = bitlen (fst (quotient_of x)) - bitlen (snd (quotient_of x)) in
      if power_int 2 e \<le> x then e else e - 1)"

definition float64_round :: "rat \<Rightarrow> rat" where
  "float64_round x =
     (if x = 0 then 0
      else
        let ulp = power_int 2 (floor_log2 \<bar>x\<bar> - 52) in
        sgn x * of_int (round_half_even (\<bar>x\<bar> / ulp)) * ulp)"

definition float64_mul :: "rat \<Rightarrow> rat \<Rightarrow> rat" where
  "float64_mul x y = float64_round (x * y)"

text \<open>
  The constants \<open>0.5\<close>, \<open>1.1\<close> and \<open>0.3\<close> of the source are converted to
  \<open>float64\<close> when they meet a \<open>float64\<close> operand: \<open>0.5\<close> is exact, the other two
  are rounded.
\<close>

definition f64_0_5 :: rat where "f64_0_5 = float64_round (5 / 10)"
definition f64_1_1 :: rat where "f64_1_1 = float64_round (11 / 10)"
definition f64_0_3 :: rat where "f64_0_3 = float64_round (3 / 10)"

text \<open>
  \<open>int(x)\<close> of a \<open>float64\<close>: the fraction is discarded, and the result is a Go
  \<open>int\<close>, 64 bits wide on the platforms the tool is built for. Where the truncated
  value does not fit, the Go specification leaves the result to the implementation:
  the model returns \<open>None\<close> there, and so claims nothing about it.
\<close>

definition float64_to_int :: "rat \<Rightarrow> int option" where
  "float64_to_int x =
     (let t = (if 0 \<le> x then \<lfloor>x\<rfloor> else \<lceil>x\<rceil>)
      in if - (2 ^ 63) \<le> t \<and> t < 2 ^ 63 then Some t else None)"

section \<open>Adaptive rate limiter (package ratelimit)\<close>

text \<open>
  The state of an \<open>AdaptiveLimiter\<close>: the ceiling, the current rate (the
  \<open>atomic.Value\<close>), the limit and the burst of the token bucket \<open>rate.Limiter\<close>
  it wraps, and the two \<open>int64\<close> counters. \<open>RecordResponse\<close> runs under the mutex
  \<open>mu\<close>, so its calls are a sequence, and each is a function from state to state.
\<close>

record AdaptiveLimiter =
  maxRPS :: rat
  currentRPS :: rat
  limiter_limit :: rat
  limiter_burst :: "int option"
  consecutive429 :: "64 word"
  successCount :: "64 word"

definition New :: "rat \<Rightarrow> AdaptiveLimiter" where
  "New maxRPS0 =
     (let maxRPS = (if maxRPS0 \<le> 0 then 100 else maxRPS0) in
      \<lparr>maxRPS = maxRPS, currentRPS = maxRPS,
       limiter_limit = maxRPS, limiter_burst = float64_to_int maxRPS,
       consecutive429 = 0, successCount = 0\<rparr>)"

text \<open>
  \<open>RecordResponse\<close> as the test file of the package exercises it (floor 10; status
  0 is not a throttle status).
\<close>

definition RecordResponse :: "int \<Rightarrow> AdaptiveLimiter \<Rightarrow> AdaptiveLimiter" where
  "RecordResponse statusCode a0 =
     (let current = currentRPS a0 in
      if statusCode = 429 \<or> statusCode = 503 then
        (let a = a0\<lparr>consecutive429 := consecutive429 a0 + 1, successCount := 0\<rparr> in
         if 3 <=s consecutive429 a then
           (let newRPS = float64_mul current f64_0_5;
                newRPS = (if newRPS < 10 then 10 else newRPS)
            in a\<lparr>currentRPS := newRPS, limiter_limit := newRPS,
                 limiter_burst := float64_to_int newRPS, consecutive429 := 0\<rparr>)
         else a)
      else
        (let a = a0\<lparr>consecutive429 := 0, successCount := successCount a0 + 1\<rparr> in
         if 100 <=s successCount a \<and> current < maxRPS a then
           (let newRPS = float64_mul current f64_1_1;
                newRPS = (if newRPS > maxRPS a then maxRPS a else newRPS)
            in a\<lparr>currentRPS := newRPS, limiter_limit := newRPS,
                 limiter_burst := float64_to_int newRPS, successCount := 0\<rparr>)
         else a))"

text \<open>
  The other revision of \<open>RecordResponse\<close> in the repository: status 0 (a network
  failure) is a failure too, with a threshold and a factor of its own, and the floor is
  5 for every decrease.
\<close>

definition RecordResponse_r2 :: "int \<Rightarrow> AdaptiveLimiter \<Rightarrow> AdaptiveLimiter" where
  "RecordResponse_r2 statusCode a0 =
     (let current = currentRPS a0 in
      if statusCode = 429 \<or> statusCode = 503 \<or> statusCode = 0 then
        (let a = a0\<lparr>consecutive429 := consecutive429 a0 + 1, successCount := 0\<rparr>;
             decreaseFactor = (if statusCode = 0 then f64_0_3 else f64_0_5);
             threshold = (if statusCode = 0 then 1 else 3)
         in
         if threshold <=s consecutive429 a then
           (let newRPS = float64_mul current decreaseFactor;
                newRPS = (if newRPS < 5 then 5 else newRPS)
            in a\<lparr>currentRPS := newRPS, limiter_limit := newRPS,
                 limiter_burst := float64_to_int newRPS, consecutive429 := 0\<rparr>)
         else a)
      else
        (let a = a0\<lparr>consecutive429 := 0, successCount := successCount a0 + 1\<rparr> in
         if 100 <=s successCount a \<and> current < maxRPS a then
           (let newRPS = float64_mul current f64_1_1;
                newRPS = (if newRPS > maxRPS a then maxRPS a else newRPS)
            in a\<lparr>currentRPS := newRPS, limiter_limit := newRPS,
                 limiter_burst := float64_to_int newRPS, successCount := 0\<rparr>)
         else a))"

text \<open>A sequence of calls of \<open>RecordResponse\<close>, one for each status, in order.\<close>

definition record_all :: "int list \<Rightarrow> AdaptiveLimiter \<Rightarrow> AdaptiveLimiter" where
  "record_all statuses a = foldl (\<lambda>a s. RecordResponse s a) a statuses"

definition record_all_r2 :: "int list \<Rightarrow> AdaptiveLimiter \<Rightarrow> AdaptiveLimiter" where
  "record_all_r2 statuses a = foldl (\<lambda>a s. RecordResponse_r2 s a) a statuses"

section \<open>Prober (pkg/scanner/prober.go)\<close>

datatype ProbeResult = BucketNotFound | BucketExists | BucketForbidden | BucketError

text \<open>
  The \<open>error\<close> values \<open>Check\<close> stores: the error of \<open>limiter.Wait\<close>, the error of
  \<open>http.NewRequestWithContext\<close>, the wrapped transport error
  (\<open>"network error: %w"\<close>) and \<open>"unexpected status code: %d"\<close>.
\<close>

datatype probe_error =
    WaitError string
  | RequestError string
  | NetworkError string
  | UnexpectedStatus int

text \<open>
  \<open>ProbeResponse\<close>. A field that is not set keeps the zero value of its type: the
  zero \<open>ProbeResult\<close> is \<open>BucketNotFound\<close> (\<open>iota\<close> starts there), the zero status
  code is 0 and the zero error is \<open>nil\<close>.
\<close>

record ProbeResponse =
  pr_Bucket :: string
  pr_Result :: ProbeResult
  pr_StatusCode :: int
  pr_Error :: "probe_error option"

text \<open>
  What the world does at one attempt of \<open>Check\<close>: the rate limiter refuses (the
  context is done), the request cannot be built, the transport fails, or a response
  with a status code arrives. A run of \<open>Check\<close> is decided by the outcomes of its
  attempts 0, 1 and 2.
\<close>

datatype attempt_outcome =
    WaitFails string
  | RequestFails string
  | TransportFails string
  | Responds int

definition maxRetries :: nat where
  "maxRetries = 2"

text \<open>
  The loop of \<open>Check\<close>. The limiter is the state \<open>lmt\<close>; its method
  \<open>RecordResponse\<close> is the parameter \<open>rr\<close>, so that the function fits either
  revision of the limiter. \<open>time.Sleep\<close> between attempts has no effect on the
  result. After the loop the source returns \<open>resp\<close> as it is.
\<close>

function Check_loop ::
  "(int \<Rightarrow> 'l \<Rightarrow> 'l) \<Rightarrow> (nat \<Rightarrow> attempt_outcome) \<Rightarrow> nat \<Rightarrow> ProbeResponse \<Rightarrow> 'l
     \<Rightarrow> ProbeResponse \<times> 'l" where
  "Check_loop rr env attempt resp lmt =
     (if attempt \<le> maxRetries then
        (case env attempt of
           WaitFails err \<Rightarrow>
             (resp\<lparr>pr_Result := BucketError, pr_Error := Some (WaitError err)\<rparr>, lmt)
         | RequestFails err \<Rightarrow>
             (resp\<lparr>pr_Result := BucketError, pr_Error := Some (RequestError err)\<rparr>, lmt)
         | TransportFails err \<Rightarrow>
             if attempt < maxRetries then Check_loop rr env (attempt + 1) resp lmt
             else (resp\<lparr>pr_Result := BucketError, pr_Error := Some (NetworkError err)\<rparr>,
                   rr 0 lmt)
         | Responds code \<Rightarrow>
             if code \<ge> 500 \<and> attempt < maxRetries
             then Check_loop rr env (attempt + 1) resp (rr code lmt)
             else
               (let resp = resp\<lparr>pr_StatusCode := code\<rparr>;
                    lmt = rr code lmt;
                    resp =
                      (if code = 200 then resp\<lparr>pr_Result := BucketExists\<rparr>
                       else if code = 403 then resp\<lparr>pr_Result := BucketForbidden\<rparr>
                       else if code = 404 then resp\<lparr>pr_Result := BucketNotFound\<rparr>
                       else if code = 301 \<or> code = 307 then resp\<lparr>pr_Result := BucketForbidden\<rparr>
                       else resp\<lparr>pr_Result := BucketError,
                                 pr_Error := Some (UnexpectedStatus code)\<rparr>)
                in (resp, lmt)))
      else (resp, lmt))"
  by pat_completeness auto
termination
  by (relation "measure (\<lambda>(rr, env, attempt, resp, lmt). Suc maxRetries - attempt)") auto

declare Check_loop.simps [simp del]

definition Check ::
  "(int \<Rightarrow> 'l \<Rightarrow> 'l) \<Rightarrow> (nat \<Rightarrow> attempt_outcome) \<Rightarrow> string \<Rightarrow> 'l \<Rightarrow> ProbeResponse \<times> 'l" where
  "Check rr env bucket lmt =
     Check_loop rr env 0
       \<lparr>pr_Bucket = bucket, pr_Result = BucketNotFound, pr_StatusCode = 0, pr_Error = None\<rparr> lmt"

section \<open>Inspector (pkg/scanner/inspector.go and its later revision)\<close>

record InspectResult =
  ir_Bucket :: string
  ir_Exists :: bool
  ir_IsPublic :: bool
  ir_ACL :: string
  ir_Region :: string
  ir_ObjectCount :: int
  ir_SampleKeys :: "string list"
  ir_Error :: string
  ir_Timestamp :: nat

text \<open>
  The answers of the services the inspector calls. \<open>ListObjectsV2Output\<close> has the
  three fields the code reads; a pointer field is an option, \<open>None\<close> for \<open>nil\<close>.
\<close>

record ListObjectsV2Output =
  Contents :: "string option list"
  IsTruncated :: "bool option"
  KeyCount :: "int option"

datatype list_outcome = ListFails string | ListSucceeds ListObjectsV2Output

datatype location_outcome = LocationFails string | LocationSucceeds string

datatype head_outcome = HeadRequestFails | HeadTransportFails | HeadResponds string

text \<open>
  The environment of one call of \<open>Inspect\<close>: whether \<open>config.LoadDefaultConfig\<close>
  fails for a region (and with which message), what \<open>GetBucketLocation\<close> answers,
  what the HEAD request answers (the value of the header \<open>x-amz-bucket-region\<close>, empty
  when absent), what \<open>ListObjectsV2\<close> answers in a region at its first and at its
  second call, and the reading of the clock.
\<close>

record s3_env =
  load_config :: "string \<Rightarrow> string option"
  get_bucket_location :: "string \<Rightarrow> location_outcome"
  head_bucket :: "string \<Rightarrow> head_outcome"
  list_objects :: "string \<Rightarrow> string \<Rightarrow> bool \<Rightarrow> list_outcome"
  now :: nat

definition known_regions :: "string list" where
  "known_regions =
     [''us-east-1'', ''us-east-2'', ''us-west-1'', ''us-west-2'',
      ''eu-west-1'', ''eu-west-2'', ''eu-west-3'', ''eu-central-1'',
      ''ap-south-1'', ''ap-northeast-1'', ''ap-northeast-2'', ''ap-southeast-1'', ''ap-southeast-2'',
      ''sa-east-1'', ''ca-central-1'']"

fun first_region :: "string list \<Rightarrow> string \<Rightarrow> string" where
  "first_region [] errMsg = ''us-east-1''"
| "first_region (r # rs) errMsg = (if Contains errMsg r then r else first_region rs errMsg)"

definition parseRegionFromError :: "string \<Rightarrow> string" where
  "parseRegionFromError errMsg = first_region known_regions errMsg"

text \<open>The loop over \<open>output.Contents\<close>: the keys that are not \<open>nil\<close>, at most ten.\<close>

fun sample_keys :: "string option list \<Rightarrow> string list \<Rightarrow> string list" where
  "sample_keys [] keys = keys"
| "sample_keys (obj # objs) keys =
     (case obj of
        None \<Rightarrow> sample_keys objs keys
      | Some k \<Rightarrow>
          (let keys = keys @ [k] in
           if length keys \<ge> 10 then keys else sample_keys objs keys))"

subsection \<open>pkg/scanner/inspector.go\<close>

text \<open>
  \<open>getBucketRegion\<close> returns a region and an error. \<open>checkPublicAccess\<close> returns
  its four results; besides them the model returns the regions in which
  \<open>ListObjectsV2\<close> was called, in order. It dereferences \<open>output.KeyCount\<close>: on a
  \<open>nil\<close> pointer the program panics, which is the result \<open>None\<close>.
\<close>

definition getBucketRegion :: "s3_env \<Rightarrow> string \<Rightarrow> string \<times> string option" where
  "getBucketRegion env bucket =
     (case load_config env ''us-east-1'' of
        Some err \<Rightarrow> ('''', Some err)
      | None \<Rightarrow>
          (case get_bucket_location env bucket of
             LocationFails err \<Rightarrow>
               if Contains err ''PermanentRedirect'' then (parseRegionFromError err, None)
               else (''us-east-1'', None)
           | LocationSucceeds constraint \<Rightarrow>
               (if constraint = '''' then ''us-east-1'' else constraint, None)))"

type_synonym access = "(bool \<times> string \<times> string list \<times> int) \<times> string list"

definition checkPublicAccess :: "s3_env \<Rightarrow> string \<Rightarrow> string \<Rightarrow> access option" where
  "checkPublicAccess env bucket region0 =
     (let region = (if region0 = '''' \<or> region0 = ''unknown'' then ''us-east-1'' else region0) in
      case load_config env region of
        Some err \<Rightarrow> Some ((False, ''unknown'', [], -1), [])
      | None \<Rightarrow>
          (case list_objects env bucket region False of
             ListFails err \<Rightarrow>
               if Contains err ''AccessDenied'' then Some ((False, ''private'', [], -1), [region])
               else if Contains err ''AllAccessDisabled'' then Some ((False, ''disabled'', [], -1), [region])
               else Some ((False, ''unknown'', [], -1), [region])
           | ListSucceeds output \<Rightarrow>
               (let keys = sample_keys (Contents output) [] in
                case KeyCount output of
                  None \<Rightarrow> None
                | Some n \<Rightarrow>
                    (let count = (if IsTruncated output = Some True then -2 else n) in
                     Some ((True, ''public-read'', keys, count), [region])))))"

definition Inspect :: "s3_env \<Rightarrow> string \<Rightarrow> InspectResult option" where
  "Inspect env bucket =
     (let result = \<lparr>ir_Bucket = bucket, ir_Exists = True, ir_IsPublic = False, ir_ACL = '''',
                     ir_Region = '''', ir_ObjectCount = -1, ir_SampleKeys = [], ir_Error = '''',
                     ir_Timestamp = now env\<rparr>;
          (region, err) = getBucketRegion env bucket;
          result = (case err of
                      Some e \<Rightarrow> result\<lparr>ir_Error := ''region lookup failed: '' @ e,
                                       ir_Region := ''unknown''\<rparr>
                    | None \<Rightarrow> result\<lparr>ir_Region := region\<rparr>)
      in case checkPublicAccess env bucket region of
           None \<Rightarrow> None
         | Some ((isPublic, acl, objects, count), calls) \<Rightarrow>
             Some (result\<lparr>ir_IsPublic := isPublic, ir_ACL := acl,
                          ir_ObjectCount := count, ir_SampleKeys := objects\<rparr>))"

subsection \<open>The later revision of the inspector\<close>

text \<open>
  \<open>getBucketRegion\<close> reads the header of a HEAD request and never returns an
  error. \<open>checkPublicAccessWithRetry\<close> calls itself once, with \<open>retried\<close> set, when
  the error names a region other than the one it has just tried; the count is the
  length of \<open>output.Contents\<close>.
\<close>

definition getBucketRegion_r2 :: "s3_env \<Rightarrow> string \<Rightarrow> string \<times> string option" where
  "getBucketRegion_r2 env bucket =
     (case head_bucket env bucket of
        HeadRequestFails \<Rightarrow> (''us-east-1'', None)
      | HeadTransportFails \<Rightarrow> (''us-east-1'', None)
      | HeadResponds region \<Rightarrow>
          if region \<noteq> '''' then (region, None) else (''us-east-1'', None))"

function checkPublicAccessWithRetry :: "s3_env \<Rightarrow> string \<Rightarrow> string \<Rightarrow> bool \<Rightarrow> access" where
  "checkPublicAccessWithRetry env bucket region0 retried =
     (let region = (if region0 = '''' \<or> region0 = ''unknown'' then ''us-east-1'' else region0) in
      case load_config env region of
        Some err \<Rightarrow> ((False, ''unknown'', [], -1), [])
      | None \<Rightarrow>
          (case list_objects env bucket region retried of
             ListFails errStr \<Rightarrow>
               if \<not> retried \<and> (Contains errStr ''BucketRegionError'' \<or>
                     Contains errStr ''PermanentRedirect'' \<or>
                     Contains errStr ''please use the correct region'') \<and>
                  parseRegionFromError errStr \<noteq> '''' \<and> parseRegionFromError errStr \<noteq> region
               then
                 (let (res, calls) =
                        checkPublicAccessWithRetry env bucket (parseRegionFromError errStr) True
                  in (res, region # calls))
               else if Contains errStr ''AccessDenied'' then ((False, ''private'', [], -1), [region])
               else if Contains errStr ''AllAccessDisabled'' then ((False, ''disabled'', [], -1), [region])
               else ((False, ''unknown'', [], -1), [region])
           | ListSucceeds output \<Rightarrow>
               (let keys = sample_keys (Contents output) [];
                    count = (if IsTruncated output = Some True then -2
                             else int (length (Contents output)))
                in ((True, ''public-read'', keys, count), [region]))))"
  by pat_completeness auto
termination
  by (relation "measure (\<lambda>(env, bucket, region0, retried). if retried then 0 else 1)") auto

declare checkPublicAccessWithRetry.simps [simp del]

definition checkPublicAccess_r2 :: "s3_env \<Rightarrow> string \<Rightarrow> string \<Rightarrow> access" where
  "checkPublicAccess_r2 env bucket region = checkPublicAccessWithRetry env bucket region False"

definition Inspect_r2 :: "s3_env \<Rightarrow> string \<Rightarrow> InspectResult" where
  "Inspect_r2 env bucket =
     (let result = \<lparr>ir_Bucket = bucket, ir_Exists = True, ir_IsPublic = False, ir_ACL = '''',
                     ir_Region = '''', ir_ObjectCount = -1, ir_SampleKeys = [], ir_Error = '''',
                     ir_Timestamp = now env\<rparr>;
          (region, err) = getBucketRegion_r2 env bucket;
          result = (case err of
                      Some e \<Rightarrow> result\<lparr>ir_Error := ''region lookup failed: '' @ e,
                                       ir_Region := ''unknown''\<rparr>
                    | None \<Rightarrow> result\<lparr>ir_Region := region\<rparr>);
          ((isPublic, acl, objects, count), calls) = checkPublicAccess_r2 env bucket region
      in result\<lparr>ir_IsPublic := isPublic, ir_ACL := acl,
                ir_ObjectCount := count, ir_SampleKeys := objects\<rparr>)"

section \<open>Scanner (pkg/scanner/scanner.go)\<close>

record ScanResult =
  sr_Bucket :: string
  sr_Probe :: ProbeResult
  sr_Inspect :: "InspectResult option"
  sr_Timestamp :: nat

record Stats =
  Total :: "64 word"
  Scanned :: "64 word"
  Found :: "64 word"
  Public :: "64 word"
  Private :: "64 word"
  Errors :: "64 word"
  StartTime :: nat

text \<open>
  What \<open>processBucket\<close> changes: the counters, the limiter inside the prober, and
  the channel \<open>resultsChan\<close>, kept as the list of the results sent on it so far.
\<close>

record 'l scanner =
  stats :: Stats
  limiter :: 'l
  resultsChan :: "ScanResult list"

text \<open>
  What \<open>processBucket\<close> reads: the flag \<open>deepInspect\<close>, the outcomes of the probe
  attempts for a bucket, the result the inspector returns for a bucket, the clock, and
  for the final \<open>select\<close> whether it takes the branch \<open><-ctx.Done()\<close> (the context
  has been cancelled and the runtime picks that branch, or the channel is full) rather
  than the send.
\<close>

record scan_env =
  deepInspect :: bool
  probe_outcomes :: "string \<Rightarrow> nat \<Rightarrow> attempt_outcome"
  inspector :: "string \<Rightarrow> InspectResult"
  clock :: nat
  done_at_send :: "string \<Rightarrow> bool"

text \<open>The \<open>select\<close> at the end of \<open>processBucket\<close>.\<close>

definition send_result :: "scan_env \<Rightarrow> ScanResult \<Rightarrow> 'l scanner \<Rightarrow> 'l scanner" where
  "send_result env result s =
     (if done_at_send env (sr_Bucket result) then s
      else s\<lparr>resultsChan := resultsChan s @ [result]\<rparr>)"

definition processBucket ::
  "(int \<Rightarrow> 'l \<Rightarrow> 'l) \<Rightarrow> scan_env \<Rightarrow> string \<Rightarrow> 'l scanner \<Rightarrow> 'l scanner" where
  "processBucket rr env bucket s0 =
     (let s = s0\<lparr>stats := (stats s0)\<lparr>Scanned := Scanned (stats s0) + 1\<rparr>\<rparr>;
          (probe, lmt) = Check rr (probe_outcomes env bucket) bucket (limiter s);
          s = s\<lparr>limiter := lmt\<rparr>;
          result = \<lparr>sr_Bucket = bucket, sr_Probe = pr_Result probe, sr_Inspect = None,
                    sr_Timestamp = clock env\<rparr>
      in case pr_Result probe of
           BucketNotFound \<Rightarrow> s
         | BucketExists \<Rightarrow>
             (let s = s\<lparr>stats := (stats s)\<lparr>Found := Found (stats s) + 1,
                                               Public := Public (stats s) + 1\<rparr>\<rparr>;
                  result = (if deepInspect env
                            then result\<lparr>sr_Inspect := Some (inspector env bucket)\<rparr>
                            else result)
              in send_result env result s)
         | BucketForbidden \<Rightarrow>
             (let s = s\<lparr>stats := (stats s)\<lparr>Found := Found (stats s) + 1,
                                               Private := Private (stats s) + 1\<rparr>\<rparr>;
                  result = (if deepInspect env
                            then result\<lparr>sr_Inspect := Some (inspector env bucket)\<rparr>
                            else result)
              in send_result env result s)
         | BucketError \<Rightarrow>
             (let s = s\<lparr>stats := (stats s)\<lparr>Errors := Errors (stats s) + 1\<rparr>\<rparr>
              in send_result env result s))"

text \<open>
  A scan whose workers take every name from the channel of names: \<open>Scan\<close> resets the
  counters, and each name is passed to \<open>processBucket\<close> once. The workers run these
  calls concurrently; the model runs them one after the other, in the order of the
  list. (The calls meet only in the atomic counters, in the limiter behind its mutex and
  in the channel, and the response of \<open>Check\<close> does not depend on the state of the
  limiter.)
\<close>

definition Scan ::
  "(int \<Rightarrow> 'l \<Rightarrow> 'l) \<Rightarrow> scan_env \<Rightarrow> string list \<Rightarrow> 'l scanner \<Rightarrow> 'l scanner" where
  "Scan rr env names s =
     foldl (\<lambda>s name. processBucket rr env name s)
       (s\<lparr>stats := \<lparr>Total = of_nat (length names), Scanned = 0, Found = 0, Public = 0,
                     Private = 0, Errors = 0, StartTime = clock env\<rparr>\<rparr>)
       names"

chapter \<open>Properties\<close>

section \<open>The bucket-name filter\<close>

subsection \<open>The functions of package strings\<close>

lemma HasPrefix_iff: "HasPrefix s p \<longleftrightarrow> (\<exists>ys. s = p @ ys)"
  by (induction s p rule: HasPrefix.induct) auto

lemma Contains_iff: "Contains s sub \<longleftrightarrow> (\<exists>xs ys. s = xs @ sub @ ys)"
proof (induction s)
  case Nil
  then show ?case by (simp add: HasPrefix_iff)
next
  case (Cons c cs)
  show ?case
  proof
    assume "Contains (c # cs) sub"
    then consider "HasPrefix (c # cs) sub" | "Contains cs sub" by auto
    then show "\<exists>xs ys. c # cs = xs @ sub @ ys"
    proof cases
      case 1
      then obtain ys where "c # cs = sub @ ys" by (auto simp: HasPrefix_iff)
      then have "c # cs = [] @ sub @ ys" by simp
      then show ?thesis by blast
    next
      case 2
      then obtain xs ys where "cs = xs @ sub @ ys" using Cons.IH by auto
      then have "c # cs = (c # xs) @ sub @ ys" by simp
      then show ?thesis by blast
    qed
  next
    assume "\<exists>xs ys. c # cs = xs @ sub @ ys"
    then obtain xs ys where e: "c # cs = xs @ sub @ ys" by auto
    show "Contains (c # cs) sub"
    proof (cases xs)
      case Nil
      with e have "HasPrefix (c # cs) sub" by (auto simp: HasPrefix_iff)
      then show ?thesis by simp
    next
      case (Cons x xs')
      with e have "cs = xs' @ sub @ ys" by simp
      then have "Contains cs sub" using Cons.IH by blast
      then show ?thesis by simp
    qed
  qed
qed

lemma Split_not_Nil: "Split s sep \<noteq> []"
  by (induction s) (auto split: list.splits)

lemma Split_no_sep: "sep \<notin> set a \<Longrightarrow> Split a sep = [a]"
  by (induction a) auto

lemma Split_append: "sep \<notin> set a \<Longrightarrow> Split (a @ sep # rest) sep = a # Split rest sep"
  by (induction a) auto

lemma Split_Cons_cases:
  "Split s sep = p # ps \<Longrightarrow> sep \<notin> set p \<and> (if ps = [] then s = p else \<exists>rest. s = p @ sep # rest \<and> Split rest sep = ps)"
proof (induction s arbitrary: p ps)
  case Nil
  then show ?case by simp
next
  case (Cons c cs)
  show ?case
  proof (cases "c = sep")
    case True
    with Cons.prems have "p = []" "ps = Split cs sep" by auto
    then show ?thesis using True Split_not_Nil[of cs sep] by auto
  next
    case False
    obtain q qs where q: "Split cs sep = q # qs" using Split_not_Nil[of cs sep] by (cases "Split cs sep") auto
    with False Cons.prems have pq: "p = c # q" "ps = qs" by auto
    from Cons.IH[OF q] have "sep \<notin> set q \<and> (if qs = [] then cs = q else \<exists>rest. cs = q @ sep # rest \<and> Split rest sep = qs)" .
    then show ?thesis using pq False by auto
  qed
qed

lemma Split4: "Split s sep = [a, b, c, d] \<longleftrightarrow>
   (s = a @ sep # b @ sep # c @ sep # d \<and> sep \<notin> set a \<and> sep \<notin> set b \<and> sep \<notin> set c \<and> sep \<notin> set d)"
proof
  assume h: "Split s sep = [a, b, c, d]"
  from Split_Cons_cases[OF h] obtain r1 where 1: "sep \<notin> set a" "s = a @ sep # r1" "Split r1 sep = [b, c, d]" by auto
  from Split_Cons_cases[OF 1(3)] obtain r2 where 2: "sep \<notin> set b" "r1 = b @ sep # r2" "Split r2 sep = [c, d]" by auto
  from Split_Cons_cases[OF 2(3)] obtain r3 where 3: "sep \<notin> set c" "r2 = c @ sep # r3" "Split r3 sep = [d]" by auto
  from Split_Cons_cases[OF 3(3)] have 4: "sep \<notin> set d" "r3 = d" by auto
  show "s = a @ sep # b @ sep # c @ sep # d \<and> sep \<notin> set a \<and> sep \<notin> set b \<and> sep \<notin> set c \<and> sep \<notin> set d"
    using 1 2 3 4 by simp
next
  assume "s = a @ sep # b @ sep # c @ sep # d \<and> sep \<notin> set a \<and> sep \<notin> set b \<and> sep \<notin> set c \<and> sep \<notin> set d"
  then show "Split s sep = [a, b, c, d]"
    by (simp add: Split_append Split_no_sep)
qed

lemma digits_no_dot: "digits_group_spec g \<Longrightarrow> CHR ''.'' \<notin> set g"
  unfolding digits_group_spec_def by auto

lemma digits_group_code:
  "(\<not> (length part = 0 \<or> length part > 3) \<and> list_all (\<lambda>c. \<not> (c < CHR ''0'' \<or> c > CHR ''9'')) part)
    \<longleftrightarrow> digits_group_spec part"
  unfolding digits_group_spec_def by (cases part) (auto simp: list_all_iff not_less)

lemma isIPAddress_alt:
  "isIPAddress s = (length (Split s CHR ''.'') = 4 \<and> list_all digits_group_spec (Split s CHR ''.''))"
  unfolding isIPAddress_def Let_def digits_group_code by simp

lemma isIPAddress_iff: "isIPAddress s \<longleftrightarrow> ipv4_shape_spec s"
proof
  assume h: "isIPAddress s"
  then have len: "length (Split s CHR ''.'') = 4"
    by (simp add: isIPAddress_alt)
  then obtain a b c d where sp: "Split s CHR ''.'' = [a, b, c, d]"
    by (auto simp: length_Suc_conv numeral_eq_Suc)
  with h have g: "digits_group_spec a" "digits_group_spec b" "digits_group_spec c" "digits_group_spec d"
    by (simp_all add: isIPAddress_alt)
  from sp have "s = a @ CHR ''.'' # b @ CHR ''.'' # c @ CHR ''.'' # d" by (simp add: Split4)
  with g show "ipv4_shape_spec s" unfolding ipv4_shape_spec_def by auto
next
  assume "ipv4_shape_spec s"
  then obtain a b c d where s: "s = a @ ''.'' @ b @ ''.'' @ c @ ''.'' @ d"
    and g: "digits_group_spec a" "digits_group_spec b" "digits_group_spec c" "digits_group_spec d"
    unfolding ipv4_shape_spec_def by auto
  have "Split s CHR ''.'' = [a, b, c, d]"
    using s g by (simp add: Split4 digits_no_dot)
  then show "isIPAddress s"
    using g by (simp add: isIPAddress_alt)
qed

lemma mem_upt_min: "k \<in> set [lo ..< Suc (min hi n)] \<longleftrightarrow> lo \<le> k \<and> k \<le> hi \<and> k \<le> n"
  by auto

lemma MatchString_Cons_iff:
  "MatchString ((items, lo, hi) # rest) s \<longleftrightarrow>
     (\<exists>xs ys. s = xs @ ys \<and> lo \<le> length xs \<and> length xs \<le> hi \<and>
        (\<forall>c \<in> set xs. in_class items c) \<and> MatchString rest ys)"
proof
  assume "MatchString ((items, lo, hi) # rest) s"
  then obtain k where k0: "k \<in> set [lo ..< Suc (min hi (length s))]"
      and k1: "list_all (in_class items) (take k s)" and k2: "MatchString rest (drop k s)"
    unfolding MatchString.simps list_ex_iff by blast
  from k0 have k: "lo \<le> k" "k \<le> hi" "k \<le> length s" by (simp_all only: mem_upt_min)
  have a: "s = take k s @ drop k s" by simp
  have b: "length (take k s) = k" using k(3) by simp
  have c: "\<forall>c \<in> set (take k s). in_class items c" using k1 by (simp only: list_all_iff)
  show "\<exists>xs ys. s = xs @ ys \<and> lo \<le> length xs \<and> length xs \<le> hi \<and>
        (\<forall>c \<in> set xs. in_class items c) \<and> MatchString rest ys"
    apply (rule exI[of _ "take k s"])
    apply (rule exI[of _ "drop k s"])
    using a b c k k2 by simp
next
  assume "\<exists>xs ys. s = xs @ ys \<and> lo \<le> length xs \<and> length xs \<le> hi \<and>
        (\<forall>c \<in> set xs. in_class items c) \<and> MatchString rest ys"
  then obtain xs ys where h: "s = xs @ ys" "lo \<le> length xs" "length xs \<le> hi"
      "\<forall>c \<in> set xs. in_class items c" "MatchString rest ys" by auto
  have "length xs \<le> length s" using h(1) by simp
  then have m: "length xs \<in> set [lo ..< Suc (min hi (length s))]"
    using h(2,3) by (simp only: mem_upt_min)
  have "list_all (in_class items) (take (length xs) s) \<and> MatchString rest (drop (length xs) s)"
    using h by (simp add: list_all_iff)
  with m show "MatchString ((items, lo, hi) # rest) s"
    unfolding MatchString.simps list_ex_iff by blast
qed

lemma in_class_alnum:
  "in_class [Range CHR ''a'' CHR ''z'', Range CHR ''0'' CHR ''9''] c = alnum_spec c"
  by (simp add: in_class_def alnum_spec_def)

lemma in_class_mid:
  "in_class [Range CHR ''a'' CHR ''z'', Range CHR ''0'' CHR ''9'', Single CHR ''.'', Single CHR ''-''] c
     = (alnum_spec c \<or> c = CHR ''.'' \<or> c = CHR ''-'')"
  by (auto simp add: in_class_def alnum_spec_def)

lemma length_one_iff: "(1 \<le> length xs \<and> length xs \<le> 1) \<longleftrightarrow> (\<exists>x. xs = [x])"
  by (cases xs) auto

lemma Match_last: "MatchString [([Range CHR ''a'' CHR ''z'', Range CHR ''0'' CHR ''9''], 1, 1)] s
   \<longleftrightarrow> (\<exists>d. s = [d] \<and> alnum_spec d)"
proof -
  have "MatchString [([Range CHR ''a'' CHR ''z'', Range CHR ''0'' CHR ''9''], 1, 1)] s
    \<longleftrightarrow> (\<exists>xs ys. s = xs @ ys \<and> (1 \<le> length xs \<and> length xs \<le> 1) \<and>
        (\<forall>c \<in> set xs. alnum_spec c) \<and> ys = [])"
    unfolding MatchString_Cons_iff in_class_alnum MatchString.simps(1) by simp
  also have "\<dots> \<longleftrightarrow> (\<exists>d. s = [d] \<and> alnum_spec d)"
    unfolding length_one_iff by auto
  finally show ?thesis .
qed


lemma Match_mid_last: "MatchString [([Range CHR ''a'' CHR ''z'', Range CHR ''0'' CHR ''9'', Single CHR ''.'', Single CHR ''-''], 1, 61),
      ([Range CHR ''a'' CHR ''z'', Range CHR ''0'' CHR ''9''], 1, 1)] s
   \<longleftrightarrow> (\<exists>mid d. s = mid @ [d] \<and> middle_spec mid \<and> alnum_spec d)"
proof -
  have "MatchString [([Range CHR ''a'' CHR ''z'', Range CHR ''0'' CHR ''9'', Single CHR ''.'', Single CHR ''-''], 1, 61),
      ([Range CHR ''a'' CHR ''z'', Range CHR ''0'' CHR ''9''], 1, 1)] s
    \<longleftrightarrow> (\<exists>xs ys. s = xs @ ys \<and> middle_spec xs \<and> (\<exists>d. ys = [d] \<and> alnum_spec d))"
    unfolding MatchString_Cons_iff[where rest = "[_]"] in_class_mid Match_last middle_spec_def by simp
  also have "\<dots> \<longleftrightarrow> (\<exists>mid d. s = mid @ [d] \<and> middle_spec mid \<and> alnum_spec d)"
    by blast
  finally show ?thesis .
qed

lemma MatchString_validBucketName: "MatchString validBucketName name \<longleftrightarrow> pattern_spec name"
proof -
  have "MatchString validBucketName name
    \<longleftrightarrow> (\<exists>xs ys. name = xs @ ys \<and> (1 \<le> length xs \<and> length xs \<le> 1) \<and>
        (\<forall>c \<in> set xs. alnum_spec c) \<and> (\<exists>mid d. ys = mid @ [d] \<and> middle_spec mid \<and> alnum_spec d))"
    unfolding validBucketName_def MatchString_Cons_iff[where rest = "[_, _]"] in_class_alnum Match_mid_last
    by simp
  also have "\<dots> \<longleftrightarrow> (\<exists>c ys. name = c # ys \<and> alnum_spec c \<and> (\<exists>mid d. ys = mid @ [d] \<and> middle_spec mid \<and> alnum_spec d))"
    (is "?L \<longleftrightarrow> ?R")
  proof
    assume ?L
    then obtain xs ys where h: "name = xs @ ys" "1 \<le> length xs \<and> length xs \<le> 1"
        "\<forall>c \<in> set xs. alnum_spec c" "\<exists>mid d. ys = mid @ [d] \<and> middle_spec mid \<and> alnum_spec d"
      by blast
    from h(2) obtain x where "xs = [x]" unfolding length_one_iff by blast
    with h show ?R by simp
  next
    assume ?R
    then obtain c ys where h: "name = c # ys" "alnum_spec c"
        "\<exists>mid d. ys = mid @ [d] \<and> middle_spec mid \<and> alnum_spec d"
      by blast
    show ?L
      apply (rule exI[of _ "[c]"])
      apply (rule exI[of _ ys])
      using h by simp
  qed
  also have "\<dots> \<longleftrightarrow> (\<exists>c mid d. name = c # mid @ [d] \<and> alnum_spec c \<and> middle_spec mid \<and> alnum_spec d)"
    by blast
  finally show ?thesis unfolding pattern_spec_def .
qed

lemma IsValidBucketName_iff: "IsValidBucketName name \<longleftrightarrow> valid_name_spec name"
  unfolding IsValidBucketName_def valid_name_spec_def isIPAddress_iff Contains_iff
     MatchString_validBucketName dotdot_spec_def
  by auto

lemma IsValidBucketName_length: "IsValidBucketName name \<Longrightarrow> 3 \<le> length name \<and> length name \<le> 63"
  unfolding IsValidBucketName_def by (simp split: if_splits)

lemma valid_3: "IsValidBucketName ''abc''"
  by code_simp

lemma valid_63: "IsValidBucketName (replicate 63 CHR ''a'')"
  by code_simp

lemma invalid_quad: "\<not> IsValidBucketName ''1.2.3.4''"
  by code_simp

lemma valid_quad_letter: "IsValidBucketName ''1.2.3.a''"
  by code_simp

section \<open>The permutation engine\<close>

lemma set_first_occurrences: "set (first_occurrences xs) = set xs"
proof (induction xs rule: first_occurrences.induct)
  case 1
  then show ?case by simp
next
  case (2 x xs)
  then show ?case by auto
qed

lemma distinct_first_occurrences: "distinct (first_occurrences xs)"
proof (induction xs rule: first_occurrences.induct)
  case 1
  then show ?case by simp
next
  case (2 x xs)
  then show ?case by (simp add: set_first_occurrences)
qed


lemma foldl_add:
  "fst st = set (snd st) \<Longrightarrow>
   foldl (\<lambda>st n. add n st) st names =
     (set (snd st) \<union> {n \<in> set names. IsValidBucketName n},
      snd st @ first_occurrences [n \<leftarrow> names. IsValidBucketName n \<and> n \<notin> set (snd st)])"
proof (induction names arbitrary: st)
  case Nil
  then show ?case by (simp add: prod_eq_iff)
next
  case (Cons n ns)
  show ?case
  proof (cases "n \<notin> fst st \<and> IsValidBucketName n")
    case True
    let ?st = "(insert n (fst st), snd st @ [n])"
    have a: "add n st = ?st" using True by (simp add: add_def)
    have i: "fst ?st = set (snd ?st)" using Cons.prems by simp
    have f: "[m \<leftarrow> ns. IsValidBucketName m \<and> m \<notin> set (snd ?st)]
           = filter (\<lambda>y. y \<noteq> n) [m \<leftarrow> ns. IsValidBucketName m \<and> m \<notin> set (snd st)]"
      by (auto intro: filter_cong)
    have "foldl (\<lambda>st n. add n st) st (n # ns) = foldl (\<lambda>st n. add n st) ?st ns"
      by (simp add: a)
    also have "\<dots> = (set (snd ?st) \<union> {n \<in> set ns. IsValidBucketName n},
      snd ?st @ first_occurrences [m \<leftarrow> ns. IsValidBucketName m \<and> m \<notin> set (snd ?st)])"
      by (rule Cons.IH[OF i])
    also have "\<dots> = (set (snd st) \<union> {m \<in> set (n # ns). IsValidBucketName m},
      snd st @ first_occurrences [m \<leftarrow> n # ns. IsValidBucketName m \<and> m \<notin> set (snd st)])"
      unfolding f using True Cons.prems by auto
    finally show ?thesis .
  next
    case False
    then have a: "add n st = st" unfolding add_def by auto
    have "foldl (\<lambda>st n. add n st) st (n # ns) = foldl (\<lambda>st n. add n st) st ns"
      by (simp add: a)
    also have "\<dots> = (set (snd st) \<union> {n \<in> set ns. IsValidBucketName n},
      snd st @ first_occurrences [m \<leftarrow> ns. IsValidBucketName m \<and> m \<notin> set (snd st)])"
      by (rule Cons.IH[OF Cons.prems])
    also have "\<dots> = (set (snd st) \<union> {m \<in> set (n # ns). IsValidBucketName m},
      snd st @ first_occurrences [m \<leftarrow> n # ns. IsValidBucketName m \<and> m \<notin> set (snd st)])"
      using False Cons.prems by auto
    finally show ?thesis .
  qed
qed

lemma add_all_eq:
  "fst st = set (snd st) \<Longrightarrow>
   add_all names st =
     (set (snd st) \<union> {n \<in> set names. IsValidBucketName n},
      snd st @ first_occurrences [n \<leftarrow> names. IsValidBucketName n \<and> n \<notin> set (snd st)])"
  unfolding add_all_def by (rule foldl_add)

lemma add_all_Nil: "add_all [] st = st"
  by (simp add: add_all_def)

lemma add_all_append: "add_all ys (add_all xs st) = add_all (xs @ ys) st"
  by (simp add: add_all_def)

lemma add_as_add_all: "add n st = add_all [n] st"
  by (simp add: add_all_def)

lemma foldl_add_map: "foldl (\<lambda>st x. add (f x) st) st xs = add_all (map f xs) st"
  by (simp add: add_all_def foldl_map)

lemma foldl_add_all: "foldl (\<lambda>st x. add_all (g x) st) st xs = add_all (concat (map g xs)) st"
  by (induction xs arbitrary: st) (simp_all add: add_all_def)

lemma add_all_Cons: "add_all (n # ns) st = add_all ns (add n st)"
  by (simp add: add_all_def)

lemma Generate_add_all:
  "Generate lib e seed0 =
     (if ToLower lib (TrimSpace lib seed0) = [] then []
      else snd (add_all (candidates e (ToLower lib (TrimSpace lib seed0))) ({}, [])))"
proof -
  define seed where "seed = ToLower lib (TrimSpace lib seed0)"
  have sep: "\<And>st sep. (if sep \<noteq> ''-'' then
         (if ReplaceAll seed CHR ''-'' sep \<noteq> seed then
            foldl (\<lambda>st suffix. add (ReplaceAll seed CHR ''-'' sep @ suffix) st)
              (add (ReplaceAll seed CHR ''-'' sep) st) (Suffixes e)
          else st)
       else st)
     = add_all (if sep \<noteq> ''-'' \<and> ReplaceAll seed CHR ''-'' sep \<noteq> seed
         then ReplaceAll seed CHR ''-'' sep
              # map (\<lambda>suffix. ReplaceAll seed CHR ''-'' sep @ suffix) (Suffixes e)
         else []) st"
    by (simp add: Let_def foldl_add_map add_all_Nil add_all_Cons)
  show ?thesis
    unfolding Generate_def Let_def seed_def[symmetric] sep
    unfolding foldl_add_map foldl_add_all
    unfolding add_as_add_all[of seed] add_all_append candidates_def
    by simp
qed

lemma Generate_first_occurrences:
  "Generate lib e seed0 =
     (if ToLower lib (TrimSpace lib seed0) = [] then []
      else first_occurrences (filter IsValidBucketName (candidates e (ToLower lib (TrimSpace lib seed0)))))"
  unfolding Generate_add_all by (simp add: add_all_eq)

lemma wordlist_step_add_all:
  "wordlist_step lib e seed st word0 =
     add_all (let word = ToLower lib (TrimSpace lib word0) in
              if word = [] then [] else word_candidates e seed word) st"
proof -
  define word where "word = ToLower lib (TrimSpace lib word0)"
  have inner: "\<And>st x. (if seed \<noteq> [] then add (seed @ ''-'' @ word @ x) (add (word @ x) st) else add (word @ x) st)
      = add_all ((word @ x) # (if seed \<noteq> [] then [seed @ ''-'' @ word @ x] else [])) st"
    by (simp add: add_all_Cons add_all_Nil)
  have four: "\<And>st. (if seed \<noteq> [] then
                    add (word @ ''.'' @ seed) (add (seed @ ''.'' @ word)
                      (add (word @ ''-'' @ seed) (add (seed @ ''-'' @ word) st)))
                  else st)
      = add_all (if seed \<noteq> [] then
          [seed @ ''-'' @ word, word @ ''-'' @ seed, seed @ ''.'' @ word, word @ ''.'' @ seed]
        else []) st"
    by (simp add: add_all_Cons add_all_Nil)
  show ?thesis
    unfolding wordlist_step_def Let_def word_def[symmetric] inner four
    unfolding foldl_add_all add_as_add_all[of word] add_all_append word_candidates_def
    by (simp add: add_all_Nil)
qed

lemma GenerateFromWordlist_add_all:
  "GenerateFromWordlist lib e words seed0 =
     snd (add_all (wordlist_candidates lib e words (ToLower lib (TrimSpace lib seed0))) ({}, []))"
proof -
  have "wordlist_step lib e (ToLower lib (TrimSpace lib seed0)) = (\<lambda>st word0. add_all (let word = ToLower lib (TrimSpace lib word0) in
              if word = [] then [] else word_candidates e (ToLower lib (TrimSpace lib seed0)) word) st)"
    by (intro ext) (rule wordlist_step_add_all)
  then show ?thesis
    unfolding GenerateFromWordlist_def Let_def wordlist_candidates_def
    by (simp add: foldl_add_all Let_def)
qed

lemma GenerateFromWordlist_first_occurrences:
  "GenerateFromWordlist lib e words seed0 =
     first_occurrences (filter IsValidBucketName (wordlist_candidates lib e words (ToLower lib (TrimSpace lib seed0))))"
  unfolding GenerateFromWordlist_add_all by (simp add: add_all_eq)


text \<open>
  Claim C5. \<open>IsValidBucketName\<close> accepts exactly the strings of length 3 to 63 that
  match the pattern \<open>^[a-z0-9][a-z0-9.-]{1,61}[a-z0-9]$\<close>, contain no two consecutive
  dots and are not four dot-separated groups of one to three digits. Every name of
  length 2 or 64 is rejected; the names \<open>abc\<close> (length 3) and sixty-three times \<open>a\<close>
  are accepted; \<open>1.2.3.4\<close> is rejected and \<open>1.2.3.a\<close> is accepted. Every name
  in the output of \<open>Generate\<close> and of \<open>GenerateFromWordlist\<close> passes the filter.
\<close>

theorem IsValidBucketName_accepts_exactly:
  "(IsValidBucketName name \<longleftrightarrow> valid_name_spec name)
   \<and> (length name = 2 \<or> length name = 64 \<longrightarrow> \<not> IsValidBucketName name)
   \<and> IsValidBucketName ''abc''
   \<and> IsValidBucketName (replicate 63 CHR ''a'')
   \<and> \<not> IsValidBucketName ''1.2.3.4''
   \<and> IsValidBucketName ''1.2.3.a''
   \<and> (\<forall>n \<in> set (Generate lib e seed). IsValidBucketName n)
   \<and> (\<forall>n \<in> set (GenerateFromWordlist lib e words seed). IsValidBucketName n)"
proof -
  have 1: "length name = 2 \<or> length name = 64 \<longrightarrow> \<not> IsValidBucketName name"
    using IsValidBucketName_length[of name] by auto
  have 2: "\<forall>n \<in> set (Generate lib e seed). IsValidBucketName n"
    unfolding Generate_first_occurrences by (simp add: set_first_occurrences)
  have 3: "\<forall>n \<in> set (GenerateFromWordlist lib e words seed). IsValidBucketName n"
    unfolding GenerateFromWordlist_first_occurrences by (simp add: set_first_occurrences)
  from IsValidBucketName_iff[of name] 1 valid_3 valid_63 invalid_quad valid_quad_letter 2 3
  show ?thesis by (intro conjI)
qed

theorem IsValidBucketName_accepts_exactly_witness:
  "valid_name_spec ''my-bucket.123'' \<and> \<not> valid_name_spec ''10.0.0.1''
   \<and> \<not> valid_name_spec ''my..bucket'' \<and> \<not> IsValidBucketName ''ab''"
proof -
  have a: "IsValidBucketName ''my-bucket.123''" by code_simp
  have b: "\<not> IsValidBucketName ''10.0.0.1''" by code_simp
  have c: "\<not> IsValidBucketName ''my..bucket''" by code_simp
  have d: "length ''ab'' = 2" by simp
  have 1: "valid_name_spec ''my-bucket.123''"
    using a IsValidBucketName_accepts_exactly[of "''my-bucket.123''", THEN conjunct1] by simp
  have 2: "\<not> valid_name_spec ''10.0.0.1''"
    using b IsValidBucketName_accepts_exactly[of "''10.0.0.1''", THEN conjunct1] by simp
  have 3: "\<not> valid_name_spec ''my..bucket''"
    using c IsValidBucketName_accepts_exactly[of "''my..bucket''", THEN conjunct1] by simp
  have 4: "\<not> IsValidBucketName ''ab''"
    using d IsValidBucketName_accepts_exactly[of "''ab''", THEN conjunct2, THEN conjunct1]
    by simp
  from 1 2 3 4 show ?thesis by (intro conjI)
qed

text \<open>
  Claim C9. \<open>Generate\<close> is a function of the seed and the five lists of the engine
  (it reads no clock, no random source and iterates over no map: the map \<open>seen\<close> is
  only asked for membership), so two runs on the same input give the same sequence. Its
  result has no duplicates, and it is the sequence of the valid candidate names, in the
  order in which the loops offer them, each at the place of its first occurrence.
\<close>

theorem Generate_deterministic_distinct:
  "distinct (Generate lib e seed)
   \<and> Generate lib e seed =
       (if ToLower lib (TrimSpace lib seed) = [] then []
        else first_occurrences
               (filter IsValidBucketName (candidates e (ToLower lib (TrimSpace lib seed)))))"
proof -
  have "distinct (Generate lib e seed)"
    unfolding Generate_first_occurrences by (simp add: distinct_first_occurrences)
  then show ?thesis using Generate_first_occurrences by simp
qed

theorem Generate_deterministic_distinct_witness:
  "Generate ascii_strings \<lparr>Suffixes = ['''', ''-dev''], Prefixes = ['''', ''dev-''],
             Separators = [''-'', ''.''], Years = ['''', ''-24''],
             Regions = ['''', ''-eu'']\<rparr> '' A-b ''
     = [''a-b'', ''dev-a-b'', ''a-b-dev'', ''dev-a-b-dev'', ''a-b-24'',
        ''a-b-dev-24'', ''a-b-eu'', ''a-b-dev-eu'', ''a.b'', ''a.b-dev'']
   \<and> distinct (Generate ascii_strings \<lparr>Suffixes = ['''', ''-dev''], Prefixes = ['''', ''dev-''],
             Separators = [''-'', ''.''], Years = ['''', ''-24''],
             Regions = ['''', ''-eu'']\<rparr> '' A-b '')"
proof -
  let ?e = "\<lparr>Suffixes = ['''', ''-dev''], Prefixes = ['''', ''dev-''],
             Separators = [''-'', ''.''], Years = ['''', ''-24''],
             Regions = ['''', ''-eu'']\<rparr>"
  have n: "ToLower ascii_strings (TrimSpace ascii_strings '' A-b '') = ''a-b''" by code_simp
  have c: "first_occurrences (filter IsValidBucketName (candidates ?e ''a-b''))
     = [''a-b'', ''dev-a-b'', ''a-b-dev'', ''dev-a-b-dev'', ''a-b-24'',
        ''a-b-dev-24'', ''a-b-eu'', ''a-b-dev-eu'', ''a.b'', ''a.b-dev'']"
    by code_simp
  show ?thesis
    using Generate_deterministic_distinct[of ascii_strings ?e "'' A-b ''"] unfolding n c by simp
qed

subsection \<open>The wordlist\<close>











subsection \<open>The earlier revision of \<open>generateNames\<close>\<close>

text \<open>
  The earlier revision of \<open>generateNames\<close> passes the wordlist to
  \<open>GenerateFromWordlist\<close>, which trims and lowercases every word and combines it with
  the suffixes and the years of the engine: for the words \<open>backup\<close>, \<open>logs\<close> and
  no seed it returns 68 names.
\<close>

lemma generateNames_earlier_revision:
  "length (generateNames ascii_strings [] (Some [''backup'', ''logs''])) = 68
   \<and> take 3 (generateNames ascii_strings [] (Some [''backup'', ''logs'']))
        = [''backup'', ''backup-dev'', ''backup-prod'']"
  by code_simp

section \<open>float64 rounding\<close>

lemma power_int_2_pos: "0 < power_int (2::rat) e"
  by simp

lemma power_int_2_nat: "0 \<le> k \<Longrightarrow> power_int (2::rat) k = 2 ^ nat k"
  by (simp add: power_int_def)

lemma bitlen_bounds_rat:
  assumes "0 < p"
  shows "power_int (2::rat) (bitlen p - 1) \<le> of_int p" and "of_int p < power_int (2::rat) (bitlen p)"
proof -
  from bitlen_bounds[OF assms] have b: "2 ^ nat (bitlen p - 1) \<le> p" "p < 2 ^ nat (bitlen p)" by auto
  have ge1: "1 \<le> bitlen p" using assms by (auto simp: bitlen_alt_def)
  have "(of_int (2 ^ nat (bitlen p - 1)) :: rat) \<le> of_int p" using b(1) by (simp only: of_int_le_iff)
  then show "power_int (2::rat) (bitlen p - 1) \<le> of_int p"
    using ge1 by (simp add: power_int_2_nat)
  have "(of_int p :: rat) < of_int (2 ^ nat (bitlen p))" using b(2) by (simp only: of_int_less_iff)
  then show "of_int p < power_int (2::rat) (bitlen p)"
    using ge1 by (simp add: power_int_2_nat)
qed

lemma floor_log2_bounds:
  assumes "0 < x"
  shows "power_int 2 (floor_log2 x) \<le> x" and "x < power_int 2 (floor_log2 x + 1)"
proof -
  obtain p q where pq: "quotient_of x = (p, q)" by (cases "quotient_of x")
  then have q: "0 < q" and x: "x = of_int p / of_int q"
    using quotient_of_denom_pos[OF pq] quotient_of_div[OF pq] by auto
  have p: "0 < p" using assms q x by (simp add: zero_less_divide_iff)
  define e where "e = bitlen p - bitlen q"
  note bp = bitlen_bounds_rat[OF p] and bq = bitlen_bounds_rat[OF q]
  have qpos: "(0::rat) < of_int q" using q by simp
  have lo: "power_int 2 (e - 1) \<le> x"
  proof -
    have "power_int (2::rat) (e - 1) * of_int q \<le> power_int 2 (e - 1) * power_int 2 (bitlen q)"
      using bq(2) by (simp add: power_int_2_pos less_imp_le)
    also have "\<dots> = power_int 2 (bitlen p - 1)"
      unfolding e_def by (simp flip: power_int_add)
    also have "\<dots> \<le> of_int p" by (rule bp(1))
    finally show ?thesis unfolding x using qpos by (simp add: pos_le_divide_eq)
  qed
  have hi: "x < power_int 2 (e + 1)"
  proof -
    have "of_int p < power_int (2::rat) (bitlen p)" by (rule bp(2))
    also have "\<dots> = power_int 2 (e + 1) * power_int 2 (bitlen q - 1)"
      unfolding e_def by (simp flip: power_int_add)
    also have "\<dots> \<le> power_int 2 (e + 1) * of_int q"
      using bq(1) by (simp add: power_int_2_pos less_imp_le)
    finally show ?thesis unfolding x using qpos by (simp add: pos_divide_less_eq)
  qed
  have fl: "floor_log2 x = (if power_int 2 e \<le> x then e else e - 1)"
    unfolding floor_log2_def Let_def pq e_def by simp
  show "power_int 2 (floor_log2 x) \<le> x" using lo fl by auto
  show "x < power_int 2 (floor_log2 x + 1)" using hi fl by (auto simp: not_le)
qed

lemma round_half_even_bounds:
  "of_int (round_half_even q) \<le> q + 1 / 2" "q - 1 / 2 \<le> of_int (round_half_even q)"
proof -
  define f where "f = \<lfloor>q\<rfloor>"
  define r where "r = q - of_int f"
  have r: "0 \<le> r" "r < 1" unfolding r_def f_def by linarith+
  have q: "q = of_int f + r" unfolding r_def by simp
  have d: "round_half_even q = (if r < 1 / 2 then f else if 1 / 2 < r then f + 1
      else if even f then f else f + 1)"
    unfolding round_half_even_def Let_def f_def r_def by simp
  have "(of_int (round_half_even q) :: rat) \<le> of_int f + r + 1 / 2"
    unfolding d using r by (auto simp: not_less)
  then show "of_int (round_half_even q) \<le> q + 1 / 2" using q by simp
  have "(of_int f :: rat) + r - 1 / 2 \<le> of_int (round_half_even q)"
    unfolding d using r by (auto simp: not_less)
  then show "q - 1 / 2 \<le> of_int (round_half_even q)" using q by simp
qed

lemma float64_round_bounds:
  assumes "0 < x"
  shows "x * (1 - 1 / 2 ^ 53) \<le> float64_round x" and "float64_round x \<le> x * (1 + 1 / 2 ^ 53)"
proof -
  define ulp :: rat where "ulp = power_int 2 (floor_log2 x - 52)"
  have up: "0 < ulp" unfolding ulp_def by simp
  have "power_int (2::rat) (floor_log2 x) = ulp * 2 ^ 52"
    unfolding ulp_def by (simp add: power_int_diff)
  with floor_log2_bounds(1)[OF assms] have ux: "ulp * 2 ^ 52 \<le> x" by simp
  have fr: "float64_round x = of_int (round_half_even (x / ulp)) * ulp"
    unfolding float64_round_def Let_def ulp_def using assms by simp
  have "x / ulp - 1 / 2 \<le> of_int (round_half_even (x / ulp))"
    by (rule round_half_even_bounds)
  then have "(x / ulp - 1 / 2) * ulp \<le> of_int (round_half_even (x / ulp)) * ulp"
    using up by (simp only: mult_le_cancel_right_pos)
  then have lo: "x - ulp / 2 \<le> float64_round x"
    unfolding fr using up by (simp add: algebra_simps)
  have "of_int (round_half_even (x / ulp)) \<le> x / ulp + 1 / 2"
    by (rule round_half_even_bounds)
  then have "of_int (round_half_even (x / ulp)) * ulp \<le> (x / ulp + 1 / 2) * ulp"
    using up by (simp only: mult_le_cancel_right_pos)
  then have hi: "float64_round x \<le> x + ulp / 2"
    unfolding fr using up by (simp add: algebra_simps)
  have "ulp / 2 \<le> x / 2 ^ 53" using ux by (simp add: field_simps)
  then show "x * (1 - 1 / 2 ^ 53) \<le> float64_round x" "float64_round x \<le> x * (1 + 1 / 2 ^ 53)"
    using lo hi by (simp_all add: algebra_simps)
qed

lemma floor_log2_unique:
  assumes "power_int 2 e \<le> x" "x < power_int 2 (e + 1)"
  shows "floor_log2 x = e"
proof -
  have x: "0 < x" using assms(1) power_int_2_pos[of e] by linarith
  note b = floor_log2_bounds[OF x]
  have "power_int (2::rat) e < power_int 2 (floor_log2 x + 1)" using assms(1) b(2) by linarith
  then have 1: "e < floor_log2 x + 1"
    using power_int_increasing[of "floor_log2 x + 1" e "2::rat"] by (cases "e < floor_log2 x + 1") auto
  have "power_int (2::rat) (floor_log2 x) < power_int 2 (e + 1)" using assms(2) b(1) by linarith
  then have 2: "floor_log2 x < e + 1"
    using power_int_increasing[of "e + 1" "floor_log2 x" "2::rat"] by (cases "floor_log2 x < e + 1") auto
  from 1 2 show ?thesis by simp
qed

lemma floor_log2_half:
  assumes "0 < x"
  shows "floor_log2 (x / 2) = floor_log2 x - 1"
proof (rule floor_log2_unique)
  note b = floor_log2_bounds[OF assms]
  have "power_int (2::rat) (floor_log2 x - 1) = power_int 2 (floor_log2 x) / 2"
    by (simp add: power_int_diff)
  then show "power_int 2 (floor_log2 x - 1) \<le> x / 2" using b(1) by simp
  have "power_int (2::rat) (floor_log2 x - 1 + 1) = power_int 2 (floor_log2 x + 1) / 2"
    by (simp add: power_int_add)
  then show "x / 2 < power_int 2 (floor_log2 x - 1 + 1)" using b(2) by simp
qed

lemma float64_round_half: "float64_round (x / 2) = float64_round x / 2"
proof (cases "x = 0")
  case True
  then show ?thesis by (simp add: float64_round_def)
next
  case False
  then have a: "0 < \<bar>x\<bar>" by simp
  have e: "floor_log2 \<bar>x / 2\<bar> = floor_log2 \<bar>x\<bar> - 1"
    using floor_log2_half[OF a] by simp
  have u: "power_int (2::rat) (floor_log2 \<bar>x\<bar> - 1 - 52) = power_int 2 (floor_log2 \<bar>x\<bar> - 52) / 2"
    by (simp add: power_int_diff)
  show ?thesis
    unfolding float64_round_def Let_def e u using False
    by (simp add: sgn_if)
qed

lemma float64_mul_half: "float64_round c = c \<Longrightarrow> float64_mul c (1 / 2) = c / 2"
  unfolding float64_mul_def using float64_round_half[of c] by simp

section \<open>The adaptive rate limiter\<close>

lemma f64_0_5_eq: "f64_0_5 = 1 / 2" by code_simp
lemma f64_1_1_eq: "f64_1_1 = 2476979795053773 / 2 ^ 51" by code_simp
lemma f64_0_3_eq: "f64_0_3 = 5404319552844595 / 2 ^ 54" by code_simp

lemma after_three_429: "record_all [429, 429, 429] (New 100) =
  \<lparr>maxRPS = 100, currentRPS = 50, limiter_limit = 50, limiter_burst = Some 50,
    consecutive429 = 0, successCount = 0\<rparr>"
  by code_simp

lemma after_100_more: "record_all (replicate 100 200) \<lparr>maxRPS = 100, currentRPS = 50, limiter_limit = 50, limiter_burst = Some 50,
    consecutive429 = 0, successCount = 0\<rparr> =
   \<lparr>maxRPS = 100, currentRPS = 55 + 1 / 2 ^ 47, limiter_limit = 55 + 1 / 2 ^ 47, limiter_burst = Some 55,
    consecutive429 = 0, successCount = 0\<rparr>"
  by code_simp

lemma record_all_append: "record_all (xs @ ys) a = record_all ys (record_all xs a)"
  by (simp add: record_all_def)

lemma RecordResponse_throttle:
  "s = 429 \<or> s = 503 \<Longrightarrow>
     successCount (RecordResponse s a) = 0 \<and>
     (if 3 <=s consecutive429 a + 1
      then currentRPS (RecordResponse s a) = max 10 (float64_mul (currentRPS a) (1 / 2))
         \<and> consecutive429 (RecordResponse s a) = 0
      else currentRPS (RecordResponse s a) = currentRPS a
         \<and> consecutive429 (RecordResponse s a) = consecutive429 a + 1)"
  unfolding RecordResponse_def Let_def f64_0_5_eq by (auto simp: max_def)

lemma RecordResponse_other:
  "s \<noteq> 429 \<and> s \<noteq> 503 \<Longrightarrow>
     consecutive429 (RecordResponse s a) = 0 \<and>
     (if 100 <=s successCount a + 1 \<and> currentRPS a < maxRPS a
      then currentRPS (RecordResponse s a) = min (maxRPS a) (float64_mul (currentRPS a) f64_1_1)
         \<and> successCount (RecordResponse s a) = 0
      else currentRPS (RecordResponse s a) = currentRPS a
         \<and> successCount (RecordResponse s a) = successCount a + 1)"
  unfolding RecordResponse_def Let_def by (auto simp: min_def)

lemma RecordResponse_maxRPS: "maxRPS (RecordResponse s a) = maxRPS a"
  unfolding RecordResponse_def Let_def by simp

lemma halve_le:
  assumes "0 < c"
  shows "float64_mul c f64_0_5 \<le> c"
proof -
  have "float64_mul c f64_0_5 \<le> (c * (1 / 2)) * (1 + 1 / 2 ^ 53)"
    unfolding float64_mul_def f64_0_5_eq using float64_round_bounds(2)[of "c * (1 / 2)"] assms by simp
  also have "\<dots> \<le> c" using assms by simp
  finally show ?thesis .
qed

lemma grow_ge:
  assumes "10 \<le> c"
  shows "10 \<le> float64_mul c f64_1_1"
proof -
  have k: "11 / 10 \<le> f64_1_1" unfolding f64_1_1_eq by simp
  have "10 \<le> (11::rat) * (1 - 1 / 2 ^ 53)" by simp
  also have "\<dots> \<le> (c * f64_1_1) * (1 - 1 / 2 ^ 53)"
  proof -
    have "11 \<le> c * f64_1_1"
      using mult_mono[of 10 c "11 / 10" f64_1_1] assms k by simp
    then have "11 * (1 - 1 / 2 ^ 53) \<le> (c * f64_1_1) * (1 - 1 / (2 ^ 53 :: rat))"
      by (intro mult_right_mono) simp_all
    then show ?thesis .
  qed
  also have "\<dots> \<le> float64_mul c f64_1_1"
    unfolding float64_mul_def using float64_round_bounds(1)[of "c * f64_1_1"] assms k
    by (simp add: zero_less_mult_iff)
  finally show ?thesis .
qed

lemma RecordResponse_bounds:
  assumes "10 \<le> maxRPS a" "10 \<le> currentRPS a" "currentRPS a \<le> maxRPS a"
  shows "10 \<le> currentRPS (RecordResponse s a) \<and> currentRPS (RecordResponse s a) \<le> maxRPS a"
proof -
  have h: "float64_mul (currentRPS a) f64_0_5 \<le> maxRPS a"
    using halve_le[of "currentRPS a"] assms by simp
  have g: "10 \<le> float64_mul (currentRPS a) f64_1_1"
    using grow_ge assms by simp
  show ?thesis
    unfolding RecordResponse_def Let_def using assms h g by (auto simp: not_less)
qed

lemma record_all_bounds:
  assumes "10 \<le> maxRPS a" "10 \<le> currentRPS a" "currentRPS a \<le> maxRPS a"
  shows "maxRPS (record_all ss a) = maxRPS a
     \<and> 10 \<le> currentRPS (record_all ss a) \<and> currentRPS (record_all ss a) \<le> maxRPS a"
  using assms
proof (induction ss arbitrary: a)
  case Nil
  then show ?case by (simp add: record_all_def)
next
  case (Cons s ss)
  have r: "record_all (s # ss) a = record_all ss (RecordResponse s a)"
    by (simp add: record_all_def)
  have m: "maxRPS (RecordResponse s a) = maxRPS a" by (rule RecordResponse_maxRPS)
  from RecordResponse_bounds[OF Cons.prems, of s] m
  have "10 \<le> maxRPS (RecordResponse s a)" "10 \<le> currentRPS (RecordResponse s a)"
       "currentRPS (RecordResponse s a) \<le> maxRPS (RecordResponse s a)"
    using Cons.prems by simp_all
  from Cons.IH[OF this] show ?case unfolding r m .
qed

lemma New_bounds: "10 \<le> m \<Longrightarrow> maxRPS (New m) = m \<and> currentRPS (New m) = m"
  unfolding New_def Let_def by simp




lemma after_99_more:
  "currentRPS (record_all (replicate 99 200)
     \<lparr>maxRPS = 100, currentRPS = 50, limiter_limit = 50, limiter_burst = Some 50,
      consecutive429 = 0, successCount = 0\<rparr>) = 50"
  by code_simp

text \<open>
  Claim C2, as stated, fails in its last figure: the product \<open>50 \<times> 1.1\<close> is a
  \<open>float64\<close> product, and the \<open>float64\<close> nearest to it is not 55.
\<close>

theorem rate_increase_counterexample:
  "currentRPS (record_all ([429, 429, 429] @ replicate 100 200) (New 100)) \<noteq> 55"
  unfolding record_all_append after_three_429 after_100_more by simp

text \<open>
  Claim C2, amended. A status 429 or 503 adds one to the failure counter and resets
  the success counter; when the failure counter reaches 3 the rate becomes the
  \<open>float64\<close> product of the rate and 0.5, but at least 10, and the failure counter is
  reset (for a rate that is a \<open>float64\<close> the product with 0.5 is exact). Any other
  status resets the failure counter and adds one to the success counter; when that
  reaches 100 and the rate is below the ceiling, the rate becomes the smaller of the
  ceiling and the \<open>float64\<close> product of the rate and 1.1, and the success counter is
  reset. From ceiling 100, three responses 429 give the rate 50; 99 further successes
  leave it there, and the hundredth gives \<open>55 + 2\<^sup>-\<^sup>4\<^sup>7\<close> (55.00000000000001), the
  \<open>float64\<close> nearest to \<open>50 \<times> 1.1\<close>.
\<close>

theorem RecordResponse_transitions:
  "(s = 429 \<or> s = 503 \<longrightarrow>
      successCount (RecordResponse s a) = 0 \<and>
      (if 3 <=s consecutive429 a + 1
       then currentRPS (RecordResponse s a) = max 10 (float64_mul (currentRPS a) (1 / 2))
          \<and> consecutive429 (RecordResponse s a) = 0
       else currentRPS (RecordResponse s a) = currentRPS a
          \<and> consecutive429 (RecordResponse s a) = consecutive429 a + 1))
   \<and> (s \<noteq> 429 \<and> s \<noteq> 503 \<longrightarrow>
      consecutive429 (RecordResponse s a) = 0 \<and>
      (if 100 <=s successCount a + 1 \<and> currentRPS a < maxRPS a
       then currentRPS (RecordResponse s a) = min (maxRPS a) (float64_mul (currentRPS a) f64_1_1)
          \<and> successCount (RecordResponse s a) = 0
       else currentRPS (RecordResponse s a) = currentRPS a
          \<and> successCount (RecordResponse s a) = successCount a + 1))
   \<and> maxRPS (RecordResponse s a) = maxRPS a
   \<and> (float64_round (currentRPS a) = currentRPS a \<longrightarrow>
        float64_mul (currentRPS a) (1 / 2) = currentRPS a / 2)
   \<and> f64_1_1 = 2476979795053773 / 2 ^ 51
   \<and> currentRPS (record_all [429, 429, 429] (New 100)) = 50
   \<and> currentRPS (record_all ([429, 429, 429] @ replicate 99 200) (New 100)) = 50
   \<and> currentRPS (record_all ([429, 429, 429] @ replicate 100 200) (New 100)) = 55 + 1 / 2 ^ 47"
proof -
  have 1: "currentRPS (record_all [429, 429, 429] (New 100)) = 50"
    unfolding after_three_429 by simp
  have 2: "currentRPS (record_all ([429, 429, 429] @ replicate 99 200) (New 100)) = 50"
    unfolding record_all_append after_three_429 by (rule after_99_more)
  have 3: "currentRPS (record_all ([429, 429, 429] @ replicate 100 200) (New 100)) = 55 + 1 / 2 ^ 47"
    unfolding record_all_append after_three_429 after_100_more by simp
  show ?thesis
    using RecordResponse_throttle[of s a] RecordResponse_other[of s a] RecordResponse_maxRPS[of s a]
      float64_mul_half[of "currentRPS a"] f64_1_1_eq 1 2 3
    by blast
qed

theorem RecordResponse_transitions_witness:
  "currentRPS (RecordResponse 503 (record_all [429, 503] (New 100))) = 50
   \<and> consecutive429 (RecordResponse 503 (record_all [429, 503] (New 100))) = 0
   \<and> successCount (RecordResponse 404 (record_all [429, 503] (New 100))) = 1
   \<and> consecutive429 (RecordResponse 404 (record_all [429, 503] (New 100))) = 0"
proof -
  have a: "record_all [429, 503] (New 100) =
     \<lparr>maxRPS = 100, currentRPS = 100, limiter_limit = 100, limiter_burst = Some 100,
      consecutive429 = 2, successCount = 0\<rparr>"
    by code_simp
  have m: "max 10 (float64_mul 100 (1 / 2)) = 50" by code_simp
  have t: "(3 :: 64 word) <=s 2 + 1" "\<not> (100 :: 64 word) <=s 0 + 1" by code_simp+
  show ?thesis
    using RecordResponse_transitions[of 503 "record_all [429, 503] (New 100)"]
      RecordResponse_transitions[of 404 "record_all [429, 503] (New 100)"]
    unfolding a using m t by simp
qed

subsection \<open>Network failures\<close>

lemma int64_compare:
  "(1 :: 64 word) <=s 1" "(1 :: 64 word) <=s 2" "(1 :: 64 word) <=s 3" "(3 :: 64 word) <=s 3"
  "\<not> (3 :: 64 word) <=s 1" "\<not> (3 :: 64 word) <=s 2"
  by code_simp+

lemma RecordResponse_r2_counter:
  "consecutive429 a \<in> {0, 1, 2} \<Longrightarrow> consecutive429 (RecordResponse_r2 s a) \<in> {0, 1, 2}"
  unfolding RecordResponse_r2_def Let_def by (auto simp: int64_compare)

lemma record_all_r2_counter:
  "consecutive429 a \<in> {0, 1, 2} \<Longrightarrow> consecutive429 (record_all_r2 ss a) \<in> {0, 1, 2}"
proof (induction ss arbitrary: a)
  case Nil
  then show ?case by (simp add: record_all_r2_def)
next
  case (Cons s ss)
  have "consecutive429 (record_all_r2 ss (RecordResponse_r2 s a)) \<in> {0, 1, 2}"
    by (rule Cons.IH[OF RecordResponse_r2_counter[OF Cons.prems]])
  then show ?case by (simp add: record_all_r2_def)
qed

lemma New_counter: "consecutive429 (New m) \<in> {0, 1, 2}"
  by (simp add: New_def Let_def)

lemma RecordResponse_r2_network_failure:
  assumes "consecutive429 a \<in> {0, 1, 2}"
  shows "currentRPS (RecordResponse_r2 0 a) = max 5 (float64_mul (currentRPS a) f64_0_3)
     \<and> limiter_limit (RecordResponse_r2 0 a) = max 5 (float64_mul (currentRPS a) f64_0_3)
     \<and> maxRPS (RecordResponse_r2 0 a) = maxRPS a
     \<and> consecutive429 (RecordResponse_r2 0 a) = 0 \<and> successCount (RecordResponse_r2 0 a) = 0"
proof -
  have "(1 :: 64 word) <=s consecutive429 a + 1"
    using assms by (auto simp: int64_compare)
  then show ?thesis
    unfolding RecordResponse_r2_def Let_def by (simp add: max_def)
qed

lemma RecordResponse_r2_network_failure_100:
  "currentRPS (RecordResponse_r2 0 (New 100)) = 30
   \<and> currentRPS (RecordResponse_r2 0 (New 10)) = 5
   \<and> currentRPS (RecordResponse_r2 0 (record_all_r2 [429, 429, 200] (New 100))) = 30"
  by code_simp

text \<open>
  Claim C3. In the revision of \<open>RecordResponse\<close> that knows status 0, every call with
  status 0, after whatever sequence of calls on a limiter made by \<open>New\<close>, is counted as
  a failure (the success counter is reset) and decreases the rate at once: the new
  rate, which is also the new limit of the token bucket, is the \<open>float64\<close> product of
  the rate and 0.3 (the \<open>float64\<close> nearest to 0.3), or 5 if the product is below 5;
  the failure counter is back at 0 and the ceiling is unchanged. One network failure
  on a fresh limiter of ceiling 100 leaves the rate 30, one on a limiter of ceiling 10
  leaves the rate 5, and a network failure needs no earlier failure: after two
  responses 429 and a success it takes the rate from 100 to 30.
\<close>

theorem RecordResponse_network_failure:
  "currentRPS (RecordResponse_r2 0 (record_all_r2 ss (New m)))
     = max 5 (float64_mul (currentRPS (record_all_r2 ss (New m))) f64_0_3)
   \<and> limiter_limit (RecordResponse_r2 0 (record_all_r2 ss (New m)))
     = max 5 (float64_mul (currentRPS (record_all_r2 ss (New m))) f64_0_3)
   \<and> maxRPS (RecordResponse_r2 0 (record_all_r2 ss (New m))) = maxRPS (record_all_r2 ss (New m))
   \<and> consecutive429 (RecordResponse_r2 0 (record_all_r2 ss (New m))) = 0
   \<and> successCount (RecordResponse_r2 0 (record_all_r2 ss (New m))) = 0
   \<and> f64_0_3 = 5404319552844595 / 2 ^ 54
   \<and> currentRPS (RecordResponse_r2 0 (New 100)) = 30
   \<and> currentRPS (RecordResponse_r2 0 (New 10)) = 5
   \<and> currentRPS (RecordResponse_r2 0 (record_all_r2 [429, 429, 200] (New 100))) = 30"
proof -
  have c: "consecutive429 (record_all_r2 ss (New m)) \<in> {0, 1, 2}"
    by (rule record_all_r2_counter[OF New_counter])
  note n = RecordResponse_r2_network_failure[OF c]
  note r = RecordResponse_r2_network_failure_100
  from n[THEN conjunct1] n[THEN conjunct2, THEN conjunct1]
    n[THEN conjunct2, THEN conjunct2, THEN conjunct1]
    n[THEN conjunct2, THEN conjunct2, THEN conjunct2, THEN conjunct1]
    n[THEN conjunct2, THEN conjunct2, THEN conjunct2, THEN conjunct2]
    f64_0_3_eq r[THEN conjunct1] r[THEN conjunct2, THEN conjunct1]
    r[THEN conjunct2, THEN conjunct2]
  show ?thesis by (intro conjI)
qed

theorem RecordResponse_network_failure_witness:
  "currentRPS (RecordResponse_r2 0 (record_all_r2 [0, 429, 200, 0] (New 100))) = 5
   \<and> consecutive429 (RecordResponse_r2 0 (record_all_r2 [0, 429, 200, 0] (New 100))) = 0"
proof -
  have a: "currentRPS (record_all_r2 [0, 429, 200, 0] (New 100)) = 9" by code_simp
  have b: "max 5 (float64_mul 9 f64_0_3) = 5" by code_simp
  from RecordResponse_network_failure[of "[0, 429, 200, 0]" 100]
  show ?thesis unfolding a b by simp
qed

subsection \<open>The earlier revision and status 0\<close>

text \<open>
  In the earlier revision of \<open>RecordResponse\<close> status 0 is not a failure status: the
  call takes the branch of a success, the rate stays where it was and the failure
  counter is reset.
\<close>

lemma RecordResponse_earlier_status_0:
  "currentRPS (RecordResponse 0 (New 100)) = 100
   \<and> consecutive429 (RecordResponse 0 (New 100)) = 0
   \<and> successCount (RecordResponse 0 (New 100)) = 1
   \<and> currentRPS (RecordResponse 0 (record_all [429, 429] (New 100))) = 100
   \<and> consecutive429 (RecordResponse 0 (record_all [429, 429] (New 100))) = 0"
  by code_simp

text \<open>
  Claim C8, as stated, fails when the configured ceiling is below the floor of the
  decrease: a limiter made with ceiling 5 starts at the rate 5, below the floor 10, and
  after three responses 429 its rate is 10, above its ceiling 5.
\<close>

theorem ceiling_below_floor_counterexample:
  "maxRPS (New 5) = 5 \<and> currentRPS (New 5) = 5
   \<and> maxRPS (record_all [429, 429, 429] (New 5)) = 5
   \<and> currentRPS (record_all [429, 429, 429] (New 5)) = 10"
  by code_simp

text \<open>
  Claim C8, amended. For a limiter made with a ceiling of at least the floor, 10, the
  ceiling never changes and after every sequence of calls of \<open>RecordResponse\<close> the
  rate lies between the floor and the ceiling.
\<close>

theorem limiter_within_bounds:
  "10 \<le> m \<Longrightarrow>
     maxRPS (record_all ss (New m)) = m
     \<and> 10 \<le> currentRPS (record_all ss (New m))
     \<and> currentRPS (record_all ss (New m)) \<le> m"
  using record_all_bounds[of "New m" ss] New_bounds[of m] by simp

theorem limiter_within_bounds_witness:
  "currentRPS (record_all (replicate 7 429) (New 20)) = 10
   \<and> maxRPS (record_all (replicate 7 429) (New 20)) = 20"
proof -
  have e: "currentRPS (record_all (replicate 6 429) (New 20)) = 10" by code_simp
  have h: "currentRPS (record_all (replicate 7 429) (New 20))
     \<le> currentRPS (record_all (replicate 6 429) (New 20))"
    by code_simp
  have "(10::rat) \<le> 20" by simp
  from limiter_within_bounds[OF this, of "replicate 7 429"] e h show ?thesis by simp
qed

section \<open>The prober\<close>

lemma Check_loop_responds_final:
  assumes "env a = Responds s" "a \<le> maxRetries" "s < 500 \<or> a = maxRetries"
  shows "fst (Check_loop rr env a resp lmt) =
     (if s = 200 then resp\<lparr>pr_StatusCode := s, pr_Result := BucketExists\<rparr>
      else if s = 403 then resp\<lparr>pr_StatusCode := s, pr_Result := BucketForbidden\<rparr>
      else if s = 404 then resp\<lparr>pr_StatusCode := s, pr_Result := BucketNotFound\<rparr>
      else if s = 301 \<or> s = 307 then resp\<lparr>pr_StatusCode := s, pr_Result := BucketForbidden\<rparr>
      else resp\<lparr>pr_StatusCode := s, pr_Result := BucketError,
                pr_Error := Some (UnexpectedStatus s)\<rparr>)"
  using assms by (subst Check_loop.simps) (auto simp: Let_def)

lemma Check_loop_retry:
  assumes "(\<exists>err. env a = TransportFails err) \<or> (\<exists>c. env a = Responds c \<and> 500 \<le> c)"
    and "a < maxRetries"
  shows "\<exists>lmt'. Check_loop rr env a resp lmt = Check_loop rr env (a + 1) resp lmt'"
  using assms by (subst Check_loop.simps) auto

lemma Check_loop_final:
  assumes "env k = Responds s" "k \<le> maxRetries" "s < 500 \<or> k = maxRetries"
    and "a \<le> k"
    and "\<forall>i. a \<le> i \<and> i < k \<longrightarrow>
           (\<exists>err. env i = TransportFails err) \<or> (\<exists>c. env i = Responds c \<and> 500 \<le> c)"
  shows "fst (Check_loop rr env a resp lmt) =
     (if s = 200 then resp\<lparr>pr_StatusCode := s, pr_Result := BucketExists\<rparr>
      else if s = 403 then resp\<lparr>pr_StatusCode := s, pr_Result := BucketForbidden\<rparr>
      else if s = 404 then resp\<lparr>pr_StatusCode := s, pr_Result := BucketNotFound\<rparr>
      else if s = 301 \<or> s = 307 then resp\<lparr>pr_StatusCode := s, pr_Result := BucketForbidden\<rparr>
      else resp\<lparr>pr_StatusCode := s, pr_Result := BucketError,
                pr_Error := Some (UnexpectedStatus s)\<rparr>)"
  using assms(4,5)
proof (induction "k - a" arbitrary: a lmt)
  case 0
  then have "a = k" by simp
  then show ?case using Check_loop_responds_final[of env k s rr resp lmt] assms(1,2,3) by simp
next
  case (Suc n)
  then have lt: "a < k" by simp
  then have am: "a < maxRetries" using assms(2) by simp
  have r: "(\<exists>err. env a = TransportFails err) \<or> (\<exists>c. env a = Responds c \<and> 500 \<le> c)"
    using Suc.prems(2) lt by simp
  from Check_loop_retry[of env a rr resp lmt] r am obtain lmt' where
    e: "Check_loop rr env a resp lmt = Check_loop rr env (a + 1) resp lmt'" by blast
  have "n = k - (a + 1)" using Suc.hyps(2) by simp
  moreover have "a + 1 \<le> k" using lt by simp
  moreover have "\<forall>i. a + 1 \<le> i \<and> i < k \<longrightarrow>
           (\<exists>err. env i = TransportFails err) \<or> (\<exists>c. env i = Responds c \<and> 500 \<le> c)"
    using Suc.prems(2) by simp
  ultimately show ?case unfolding e using Suc.hyps(1) by blast
qed


lemma Check_independent_of_limiter:
  "fst (Check_loop rr env a resp lmt) = fst (Check_loop rr' env a resp lmt')"
proof (induction "Suc maxRetries - a" arbitrary: a lmt lmt')
  case 0
  then have "\<not> a \<le> maxRetries" by simp
  then show ?case
    by (simp add: Check_loop.simps[of rr env a resp lmt] Check_loop.simps[of rr' env a resp lmt'])
next
  case (Suc n)
  then have n: "n = Suc maxRetries - (a + 1)" by simp
  note ih = Suc.hyps(1)[OF n]
  show ?case
  proof (cases "env a")
    case (WaitFails err)
    then show ?thesis
      by (simp add: Check_loop.simps[of rr env a resp lmt] Check_loop.simps[of rr' env a resp lmt'])
  next
    case (RequestFails err)
    then show ?thesis
      by (simp add: Check_loop.simps[of rr env a resp lmt] Check_loop.simps[of rr' env a resp lmt'])
  next
    case (TransportFails err)
    then show ?thesis
      using ih[of lmt lmt']
      by (simp add: Check_loop.simps[of rr env a resp lmt] Check_loop.simps[of rr' env a resp lmt'])
  next
    case (Responds code)
    then show ?thesis
      using ih[of "rr code lmt" "rr' code lmt'"]
      by (simp add: Check_loop.simps[of rr env a resp lmt] Check_loop.simps[of rr' env a resp lmt'] Let_def)
  qed
qed

text \<open>
  Claim C1. Let the attempts \<open>0 .. k - 1\<close> of a probe be retried (a transport error,
  or a response with a status of 500 or more) and let attempt \<open>k \<le> 2\<close> bring a
  response with status \<open>s\<close> that is not retried (\<open>s < 500\<close>, or \<open>k\<close> is the last
  attempt): \<open>s\<close> is the final status of the probe. Then \<open>Check\<close> returns \<open>Exists\<close>
  for 200, \<open>Forbidden\<close> for 403, \<open>NotFound\<close> for 404, \<open>Forbidden\<close> for 301 and
  307, and \<open>Error\<close> with the error "unexpected status code" for any other status; the
  response carries the status \<open>s\<close> and the name of the bucket.
\<close>

theorem Check_classifies_final_status:
  assumes "k \<le> maxRetries"
    and "\<forall>i<k. (\<exists>err. env i = TransportFails err) \<or> (\<exists>c. env i = Responds c \<and> 500 \<le> c)"
    and "env k = Responds s"
    and "s < 500 \<or> k = maxRetries"
  shows "pr_Result (fst (Check rr env bucket lmt)) =
           (if s = 200 then BucketExists
            else if s = 403 then BucketForbidden
            else if s = 404 then BucketNotFound
            else if s = 301 \<or> s = 307 then BucketForbidden
            else BucketError)
       \<and> pr_Error (fst (Check rr env bucket lmt)) =
           (if s = 200 \<or> s = 403 \<or> s = 404 \<or> s = 301 \<or> s = 307 then None
            else Some (UnexpectedStatus s))
       \<and> pr_StatusCode (fst (Check rr env bucket lmt)) = s
       \<and> pr_Bucket (fst (Check rr env bucket lmt)) = bucket"
proof -
  have "\<forall>i. 0 \<le> i \<and> i < k \<longrightarrow>
           (\<exists>err. env i = TransportFails err) \<or> (\<exists>c. env i = Responds c \<and> 500 \<le> c)"
    using assms(2) by simp
  from Check_loop_final[of env k s 0 rr _ lmt] assms this
  show ?thesis unfolding Check_def by simp
qed

theorem Check_classifies_final_status_witness:
  "pr_Result (fst (Check RecordResponse
      (\<lambda>i. if i = 0 then TransportFails ''timeout'' else if i = 1 then Responds 503 else Responds 301)
      ''acme'' (New 100))) = BucketForbidden
   \<and> pr_StatusCode (fst (Check RecordResponse
      (\<lambda>i. if i = 0 then TransportFails ''timeout'' else if i = 1 then Responds 503 else Responds 301)
      ''acme'' (New 100))) = 301
   \<and> pr_Result (fst (Check RecordResponse (\<lambda>i. Responds 500) ''acme'' (New 100))) = BucketError
   \<and> pr_Error (fst (Check RecordResponse (\<lambda>i. Responds 500) ''acme'' (New 100)))
       = Some (UnexpectedStatus 500)"
proof -
  let ?env = "\<lambda>i::nat. if i = 0 then TransportFails ''timeout''
                else if i = 1 then Responds 503 else Responds 301"
  have k: "(2::nat) \<le> maxRetries" by (simp add: maxRetries_def)
  have a: "\<forall>i<2. (\<exists>err. ?env i = TransportFails err) \<or> (\<exists>c. ?env i = Responds c \<and> 500 \<le> c)"
    by (auto dest: less_2_cases)
  have b: "?env 2 = Responds 301" by simp
  have c: "(301::int) < 500 \<or> (2::nat) = maxRetries" by simp
  have a': "\<forall>i<2. (\<exists>err. (\<lambda>i::nat. Responds 500) i = TransportFails err)
              \<or> (\<exists>c. (\<lambda>i::nat. Responds 500) i = Responds c \<and> 500 \<le> c)"
    by simp
  have c': "(500::int) < 500 \<or> (2::nat) = maxRetries" by (simp add: maxRetries_def)
  show ?thesis
    using Check_classifies_final_status[OF k a b c, of RecordResponse "''acme''" "New 100"]
      Check_classifies_final_status[OF k a' _ c', of RecordResponse "''acme''" "New 100"]
    by simp
qed

section \<open>The scanner\<close>

lemma processBucket_resultsChan:
  "resultsChan (processBucket rr env bucket s) =
     (let c = pr_Result (fst (Check rr (probe_outcomes env bucket) bucket (limiter s))) in
      if c = BucketNotFound \<or> done_at_send env bucket then resultsChan s
      else resultsChan s @
        [\<lparr>sr_Bucket = bucket, sr_Probe = c,
          sr_Inspect = (if deepInspect env \<and> c \<noteq> BucketError
                        then Some (inspector env bucket) else None),
          sr_Timestamp = clock env\<rparr>])"
  unfolding processBucket_def send_result_def Let_def
  by (cases "Check rr (probe_outcomes env bucket) bucket (limiter s)";
      cases "pr_Result (fst (Check rr (probe_outcomes env bucket) bucket (limiter s)))")
     auto


text \<open>
  Claim C6, as stated, fails for a scan whose context is cancelled: the result of a
  probe that found the bucket (status 200, \<open>Exists\<close>) is not sent when the final
  \<open>select\<close> takes the branch \<open><-ctx.Done()\<close>.
\<close>

theorem processBucket_cancelled_counterexample:
  "pr_Result (fst (Check RecordResponse (\<lambda>i. Responds 200) ''acme'' (New 100))) = BucketExists
   \<and> resultsChan (processBucket RecordResponse
        \<lparr>deepInspect = False,
         probe_outcomes = (\<lambda>name i. Responds 200),
         inspector = (\<lambda>name. \<lparr>ir_Bucket = name, ir_Exists = True, ir_IsPublic = False,
            ir_ACL = ''unknown'', ir_Region = ''us-east-1'', ir_ObjectCount = -1,
            ir_SampleKeys = [], ir_Error = [], ir_Timestamp = 0\<rparr>),
         clock = 0, done_at_send = (\<lambda>name. True)\<rparr>
        ''acme''
        \<lparr>stats = \<lparr>Total = 1, Scanned = 0, Found = 0, Public = 0, Private = 0, Errors = 0,
                   StartTime = 0\<rparr>,
         limiter = New 100, resultsChan = []\<rparr>) = []"
  by code_simp

lemma five_names_scenario:
  "map (\<lambda>r. (sr_Bucket r, sr_Probe r))
     (resultsChan (Scan RecordResponse
        \<lparr>deepInspect = False,
         probe_outcomes = (\<lambda>name i. Responds
            (if name = ''one'' then 200 else if name = ''two'' then 403
             else if name = ''three'' then 404 else if name = ''four'' then 301 else 500)),
         inspector = (\<lambda>name. \<lparr>ir_Bucket = name, ir_Exists = True, ir_IsPublic = False,
            ir_ACL = ''unknown'', ir_Region = ''us-east-1'', ir_ObjectCount = -1,
            ir_SampleKeys = [], ir_Error = [], ir_Timestamp = 0\<rparr>),
         clock = 0, done_at_send = (\<lambda>name. False)\<rparr>
        [''one'', ''two'', ''three'', ''four'', ''five'']
        \<lparr>stats = \<lparr>Total = 0, Scanned = 0, Found = 0, Public = 0, Private = 0, Errors = 0,
                   StartTime = 0\<rparr>,
         limiter = New 100, resultsChan = []\<rparr>))
   = [(''one'', BucketExists), (''two'', BucketForbidden), (''four'', BucketForbidden),
      (''five'', BucketError)]"
  by code_simp

text \<open>
  Claim C6, amended. A name whose probe is classified \<open>NotFound\<close> is never sent on
  the results channel, cancelled or not. A name with any other classification is sent
  (one result, with the name and the classification) unless the final \<open>select\<close> of
  \<open>processBucket\<close> takes the branch of the cancelled context, in which case nothing is
  sent. In a scan that is not cancelled, with a prober stubbed to answer 200, 403,
  404, 301 and 500 for five names, exactly four results are sent: all but the third.
\<close>

theorem processBucket_emits:
  "(pr_Result (fst (Check rr (probe_outcomes env bucket) bucket (limiter s))) = BucketNotFound
      \<longrightarrow> resultsChan (processBucket rr env bucket s) = resultsChan s)
   \<and> (pr_Result (fst (Check rr (probe_outcomes env bucket) bucket (limiter s))) \<noteq> BucketNotFound
        \<and> \<not> done_at_send env bucket
      \<longrightarrow> (\<exists>r. resultsChan (processBucket rr env bucket s) = resultsChan s @ [r]
             \<and> sr_Bucket r = bucket
             \<and> sr_Probe r = pr_Result (fst (Check rr (probe_outcomes env bucket) bucket (limiter s)))))
   \<and> (done_at_send env bucket
      \<longrightarrow> resultsChan (processBucket rr env bucket s) = resultsChan s)
   \<and> length (resultsChan (Scan RecordResponse
        \<lparr>deepInspect = False,
         probe_outcomes = (\<lambda>name i. Responds
            (if name = ''one'' then 200 else if name = ''two'' then 403
             else if name = ''three'' then 404 else if name = ''four'' then 301 else 500)),
         inspector = (\<lambda>name. \<lparr>ir_Bucket = name, ir_Exists = True, ir_IsPublic = False,
            ir_ACL = ''unknown'', ir_Region = ''us-east-1'', ir_ObjectCount = -1,
            ir_SampleKeys = [], ir_Error = [], ir_Timestamp = 0\<rparr>),
         clock = 0, done_at_send = (\<lambda>name. False)\<rparr>
        [''one'', ''two'', ''three'', ''four'', ''five'']
        \<lparr>stats = \<lparr>Total = 0, Scanned = 0, Found = 0, Public = 0, Private = 0, Errors = 0,
                   StartTime = 0\<rparr>,
         limiter = New 100, resultsChan = []\<rparr>)) = 4
   \<and> map (\<lambda>r. (sr_Bucket r, sr_Probe r))
     (resultsChan (Scan RecordResponse
        \<lparr>deepInspect = False,
         probe_outcomes = (\<lambda>name i. Responds
            (if name = ''one'' then 200 else if name = ''two'' then 403
             else if name = ''three'' then 404 else if name = ''four'' then 301 else 500)),
         inspector = (\<lambda>name. \<lparr>ir_Bucket = name, ir_Exists = True, ir_IsPublic = False,
            ir_ACL = ''unknown'', ir_Region = ''us-east-1'', ir_ObjectCount = -1,
            ir_SampleKeys = [], ir_Error = [], ir_Timestamp = 0\<rparr>),
         clock = 0, done_at_send = (\<lambda>name. False)\<rparr>
        [''one'', ''two'', ''three'', ''four'', ''five'']
        \<lparr>stats = \<lparr>Total = 0, Scanned = 0, Found = 0, Public = 0, Private = 0, Errors = 0,
                   StartTime = 0\<rparr>,
         limiter = New 100, resultsChan = []\<rparr>))
     = [(''one'', BucketExists), (''two'', BucketForbidden), (''four'', BucketForbidden),
        (''five'', BucketError)]"
proof -
  let ?c = "pr_Result (fst (Check rr (probe_outcomes env bucket) bucket (limiter s)))"
  have 1: "?c = BucketNotFound \<longrightarrow> resultsChan (processBucket rr env bucket s) = resultsChan s"
    unfolding processBucket_resultsChan Let_def by simp
  have 2: "?c \<noteq> BucketNotFound \<and> \<not> done_at_send env bucket
      \<longrightarrow> (\<exists>r. resultsChan (processBucket rr env bucket s) = resultsChan s @ [r]
             \<and> sr_Bucket r = bucket \<and> sr_Probe r = ?c)"
    unfolding processBucket_resultsChan Let_def by simp
  have 3: "done_at_send env bucket
      \<longrightarrow> resultsChan (processBucket rr env bucket s) = resultsChan s"
    unfolding processBucket_resultsChan Let_def by simp
  note 5 = five_names_scenario
  have 4: "length (resultsChan (Scan RecordResponse
        \<lparr>deepInspect = False,
         probe_outcomes = (\<lambda>name i. Responds
            (if name = ''one'' then 200 else if name = ''two'' then 403
             else if name = ''three'' then 404 else if name = ''four'' then 301 else 500)),
         inspector = (\<lambda>name. \<lparr>ir_Bucket = name, ir_Exists = True, ir_IsPublic = False,
            ir_ACL = ''unknown'', ir_Region = ''us-east-1'', ir_ObjectCount = -1,
            ir_SampleKeys = [], ir_Error = [], ir_Timestamp = 0\<rparr>),
         clock = 0, done_at_send = (\<lambda>name. False)\<rparr>
        [''one'', ''two'', ''three'', ''four'', ''five'']
        \<lparr>stats = \<lparr>Total = 0, Scanned = 0, Found = 0, Public = 0, Private = 0, Errors = 0,
                   StartTime = 0\<rparr>,
         limiter = New 100, resultsChan = []\<rparr>)) = 4"
    using arg_cong[OF 5, of length] by (simp only: length_map list.size)
  from 1 2 3 4 5 show ?thesis by (intro conjI)
qed

theorem processBucket_emits_witness:
  "resultsChan (processBucket RecordResponse
        \<lparr>deepInspect = False,
         probe_outcomes = (\<lambda>name i. Responds (if name = ''three'' then 404 else 403)),
         inspector = (\<lambda>name. \<lparr>ir_Bucket = name, ir_Exists = True, ir_IsPublic = False,
            ir_ACL = ''unknown'', ir_Region = ''us-east-1'', ir_ObjectCount = -1,
            ir_SampleKeys = [], ir_Error = [], ir_Timestamp = 0\<rparr>),
         clock = 0, done_at_send = (\<lambda>name. False)\<rparr>
        ''three''
        \<lparr>stats = \<lparr>Total = 1, Scanned = 0, Found = 0, Public = 0, Private = 0, Errors = 0,
                   StartTime = 0\<rparr>,
         limiter = New 100, resultsChan = []\<rparr>) = []
   \<and> (\<exists>r. resultsChan (processBucket RecordResponse
        \<lparr>deepInspect = False,
         probe_outcomes = (\<lambda>name i. Responds (if name = ''three'' then 404 else 403)),
         inspector = (\<lambda>name. \<lparr>ir_Bucket = name, ir_Exists = True, ir_IsPublic = False,
            ir_ACL = ''unknown'', ir_Region = ''us-east-1'', ir_ObjectCount = -1,
            ir_SampleKeys = [], ir_Error = [], ir_Timestamp = 0\<rparr>),
         clock = 0, done_at_send = (\<lambda>name. False)\<rparr>
        ''two''
        \<lparr>stats = \<lparr>Total = 1, Scanned = 0, Found = 0, Public = 0, Private = 0, Errors = 0,
                   StartTime = 0\<rparr>,
         limiter = New 100, resultsChan = []\<rparr>) = [r]
        \<and> sr_Bucket r = ''two'' \<and> sr_Probe r = BucketForbidden)"
proof -
  let ?env = "\<lparr>deepInspect = False,
         probe_outcomes = (\<lambda>name i. Responds (if name = ''three'' then 404 else 403)),
         inspector = (\<lambda>name. \<lparr>ir_Bucket = name, ir_Exists = True, ir_IsPublic = False,
            ir_ACL = ''unknown'', ir_Region = ''us-east-1'', ir_ObjectCount = -1,
            ir_SampleKeys = [], ir_Error = [], ir_Timestamp = 0\<rparr>),
         clock = 0, done_at_send = (\<lambda>name. False)\<rparr>"
  let ?s = "\<lparr>stats = \<lparr>Total = 1, Scanned = 0, Found = 0, Public = 0, Private = 0, Errors = 0,
                   StartTime = 0\<rparr>,
         limiter = New 100, resultsChan = []\<rparr>"
  have a: "pr_Result (fst (Check RecordResponse (probe_outcomes ?env ''three'') ''three'' (limiter ?s)))
     = BucketNotFound" by code_simp
  have b: "pr_Result (fst (Check RecordResponse (probe_outcomes ?env ''two'') ''two'' (limiter ?s)))
     = BucketForbidden" by code_simp
  show ?thesis
    using processBucket_emits[of RecordResponse ?env "''three''" ?s]
      processBucket_emits[of RecordResponse ?env "''two''" ?s]
    unfolding a b by simp
qed

section \<open>The inspector\<close>

lemma first_region_mem: "first_region rs msg \<in> set rs \<or> first_region rs msg = ''us-east-1''"
  by (induction rs) auto

lemma parseRegionFromError_known: "parseRegionFromError msg \<in> set known_regions"
proof -
  have "''us-east-1'' \<in> set known_regions" by (simp add: known_regions_def)
  then show ?thesis
    unfolding parseRegionFromError_def using first_region_mem[of known_regions msg] by auto
qed

lemma first_region_Contains:
  "\<exists>r \<in> set rs. Contains msg r \<Longrightarrow> Contains msg (first_region rs msg)"
  by (induction rs) auto

lemma first_region_none:
  "\<forall>r \<in> set rs. \<not> Contains msg r \<Longrightarrow> first_region rs msg = ''us-east-1''"
  by (induction rs) auto

lemma retried_no_recursion:
  "checkPublicAccessWithRetry env bucket region0 True =
     (let region = (if region0 = '''' \<or> region0 = ''unknown'' then ''us-east-1'' else region0) in
      case load_config env region of
        Some err \<Rightarrow> ((False, ''unknown'', [], -1), [])
      | None \<Rightarrow>
          (case list_objects env bucket region True of
             ListFails errStr \<Rightarrow>
               if Contains errStr ''AccessDenied'' then ((False, ''private'', [], -1), [region])
               else if Contains errStr ''AllAccessDisabled'' then ((False, ''disabled'', [], -1), [region])
               else ((False, ''unknown'', [], -1), [region])
           | ListSucceeds output \<Rightarrow>
               ((True, ''public-read'', sample_keys (Contents output) [],
                 (if IsTruncated output = Some True then -2 else int (length (Contents output)))),
                [region])))"
  by (subst checkPublicAccessWithRetry.simps)
     (auto simp: Let_def split: option.split list_outcome.split)

lemma calls_retried: "length (snd (checkPublicAccessWithRetry env bucket region0 True)) \<le> 1"
  unfolding retried_no_recursion Let_def
  by (auto split: option.splits list_outcome.splits)

lemma calls_retried_pair:
  "checkPublicAccessWithRetry env bucket region0 True = (res, calls) \<Longrightarrow> length calls \<le> 1"
  using calls_retried[of env bucket region0] by simp

lemma calls_at_most_two: "length (snd (checkPublicAccessWithRetry env bucket region0 False)) \<le> 2"
  by (subst checkPublicAccessWithRetry.simps)
     (auto simp: Let_def split: option.split list_outcome.split prod.split
           dest: calls_retried_pair)

lemma known_region_plain: "r \<in> set known_regions \<Longrightarrow> r \<noteq> [] \<and> r \<noteq> ''unknown''"
  by (auto simp: known_regions_def)

lemma retry_step:
  assumes "region = (if region0 = '''' \<or> region0 = ''unknown'' then ''us-east-1'' else region0)"
    and "load_config env region = None"
    and "list_objects env bucket region False = ListFails msg"
    and "Contains msg ''BucketRegionError'' \<or> Contains msg ''PermanentRedirect''
         \<or> Contains msg ''please use the correct region''"
  shows "checkPublicAccessWithRetry env bucket region0 False =
     (if parseRegionFromError msg \<noteq> region
      then (fst (checkPublicAccessWithRetry env bucket (parseRegionFromError msg) True),
            region # snd (checkPublicAccessWithRetry env bucket (parseRegionFromError msg) True))
      else if Contains msg ''AccessDenied'' then ((False, ''private'', [], -1), [region])
      else if Contains msg ''AllAccessDisabled'' then ((False, ''disabled'', [], -1), [region])
      else ((False, ''unknown'', [], -1), [region]))"
proof -
  have ne: "parseRegionFromError msg \<noteq> []"
    using known_region_plain[OF parseRegionFromError_known] by simp
  show ?thesis
    apply (subst checkPublicAccessWithRetry.simps)
    using assms ne by (auto simp: Let_def split: prod.split)
qed

lemma second_attempt:
  assumes "r \<in> set known_regions" "load_config env r = None"
  shows "checkPublicAccessWithRetry env bucket r True =
     (case list_objects env bucket r True of
        ListFails e \<Rightarrow>
          if Contains e ''AccessDenied'' then ((False, ''private'', [], -1), [r])
          else if Contains e ''AllAccessDisabled'' then ((False, ''disabled'', [], -1), [r])
          else ((False, ''unknown'', [], -1), [r])
      | ListSucceeds output \<Rightarrow>
          ((True, ''public-read'', sample_keys (Contents output) [],
            (if IsTruncated output = Some True then -2 else int (length (Contents output)))),
           [r]))"
  unfolding retried_no_recursion Let_def
  using known_region_plain[OF assms(1)] assms(2) by simp

lemma retry_scenario:
  "(let env = \<lparr>load_config = (\<lambda>region. None),
              get_bucket_location = (\<lambda>bucket. LocationSucceeds ''''),
              head_bucket = (\<lambda>bucket. HeadResponds ''''),
              list_objects = (\<lambda>bucket region retried.
                 if region = ''eu-west-1''
                 then ListSucceeds \<lparr>Contents = [Some ''index.html'', None, Some ''logo.png''],
                        IsTruncated = Some False, KeyCount = Some 3\<rparr>
                 else ListFails ''BucketRegionError: incorrect region, please use the correct region: eu-west-1''),
              now = 7\<rparr>
    in (Inspect_r2 env ''acme-assets'', checkPublicAccess_r2 env ''acme-assets'' ''us-east-1'',
        Inspect env ''acme-assets''))
   = (\<lparr>ir_Bucket = ''acme-assets'', ir_Exists = True, ir_IsPublic = True, ir_ACL = ''public-read'',
        ir_Region = ''us-east-1'', ir_ObjectCount = 3, ir_SampleKeys = [''index.html'', ''logo.png''],
        ir_Error = [], ir_Timestamp = 7\<rparr>,
      ((True, ''public-read'', [''index.html'', ''logo.png''], 3), [''us-east-1'', ''eu-west-1'']),
      Some \<lparr>ir_Bucket = ''acme-assets'', ir_Exists = True, ir_IsPublic = False, ir_ACL = ''unknown'',
        ir_Region = ''us-east-1'', ir_ObjectCount = -1, ir_SampleKeys = [],
        ir_Error = [], ir_Timestamp = 7\<rparr>)"
  by code_simp

lemma no_retry_scenario:
  "checkPublicAccess_r2
     \<lparr>load_config = (\<lambda>region. None),
      get_bucket_location = (\<lambda>bucket. LocationSucceeds ''''),
      head_bucket = (\<lambda>bucket. HeadResponds ''''),
      list_objects = (\<lambda>bucket region retried.
         ListFails ''PermanentRedirect: the bucket must be addressed using the specified endpoint''),
      now = 7\<rparr> ''acme-assets'' ''us-east-1''
   = ((False, ''unknown'', [], -1), [''us-east-1''])"
  by code_simp

text \<open>
  Claim C7, as stated, fails twice. When the first \<open>ListObjectsV2\<close> in \<open>us-east-1\<close>
  fails with "please use the correct region: eu-west-1" and the second, in
  \<open>eu-west-1\<close>, succeeds, the result has the ACL \<open>public-read\<close> but its region is
  still \<open>us-east-1\<close>: \<open>Inspect\<close> sets the region before the list attempts, and
  \<open>checkPublicAccess\<close> does not return the region it ended in. And a region-mismatch
  error that names no other region than the one just tried (here a \<open>PermanentRedirect\<close>
  without a region, in \<open>us-east-1\<close>) is not retried at all.
\<close>

theorem region_retry_counterexample:
  "ir_Region (Inspect_r2
     \<lparr>load_config = (\<lambda>region. None),
      get_bucket_location = (\<lambda>bucket. LocationSucceeds ''''),
      head_bucket = (\<lambda>bucket. HeadResponds ''''),
      list_objects = (\<lambda>bucket region retried.
         if region = ''eu-west-1''
         then ListSucceeds \<lparr>Contents = [Some ''index.html'', None, Some ''logo.png''],
                IsTruncated = Some False, KeyCount = Some 3\<rparr>
         else ListFails ''BucketRegionError: incorrect region, please use the correct region: eu-west-1''),
      now = 7\<rparr> ''acme-assets'') = ''us-east-1''
   \<and> ir_ACL (Inspect_r2
     \<lparr>load_config = (\<lambda>region. None),
      get_bucket_location = (\<lambda>bucket. LocationSucceeds ''''),
      head_bucket = (\<lambda>bucket. HeadResponds ''''),
      list_objects = (\<lambda>bucket region retried.
         if region = ''eu-west-1''
         then ListSucceeds \<lparr>Contents = [Some ''index.html'', None, Some ''logo.png''],
                IsTruncated = Some False, KeyCount = Some 3\<rparr>
         else ListFails ''BucketRegionError: incorrect region, please use the correct region: eu-west-1''),
      now = 7\<rparr> ''acme-assets'') = ''public-read''
   \<and> snd (checkPublicAccess_r2
     \<lparr>load_config = (\<lambda>region. None),
      get_bucket_location = (\<lambda>bucket. LocationSucceeds ''''),
      head_bucket = (\<lambda>bucket. HeadResponds ''''),
      list_objects = (\<lambda>bucket region retried.
         if region = ''eu-west-1''
         then ListSucceeds \<lparr>Contents = [Some ''index.html'', None, Some ''logo.png''],
                IsTruncated = Some False, KeyCount = Some 3\<rparr>
         else ListFails ''BucketRegionError: incorrect region, please use the correct region: eu-west-1''),
      now = 7\<rparr> ''acme-assets'' ''us-east-1'') = [''us-east-1'', ''eu-west-1'']
   \<and> Contains ''PermanentRedirect: the bucket must be addressed using the specified endpoint''
        ''PermanentRedirect''
   \<and> checkPublicAccess_r2
     \<lparr>load_config = (\<lambda>region. None),
      get_bucket_location = (\<lambda>bucket. LocationSucceeds ''''),
      head_bucket = (\<lambda>bucket. HeadResponds ''''),
      list_objects = (\<lambda>bucket region retried.
         ListFails ''PermanentRedirect: the bucket must be addressed using the specified endpoint''),
      now = 7\<rparr> ''acme-assets'' ''us-east-1''
     = ((False, ''unknown'', [], -1), [''us-east-1''])"
proof -
  have c: "Contains ''PermanentRedirect: the bucket must be addressed using the specified endpoint''
        ''PermanentRedirect''" by code_simp
  from retry_scenario no_retry_scenario c show ?thesis
    unfolding Let_def prod.inject by simp
qed

lemma first_region_first:
  "(\<exists>i < length rs. first_region rs msg = rs ! i \<and> Contains msg (rs ! i)
        \<and> (\<forall>j < i. \<not> Contains msg (rs ! j)))
   \<or> ((\<forall>r \<in> set rs. \<not> Contains msg r) \<and> first_region rs msg = ''us-east-1'')"
proof (induction rs)
  case Nil
  then show ?case by simp
next
  case (Cons r rs)
  show ?case
  proof (cases "Contains msg r")
    case True
    then have "0 < length (r # rs) \<and> first_region (r # rs) msg = (r # rs) ! 0
        \<and> Contains msg ((r # rs) ! 0) \<and> (\<forall>j < 0. \<not> Contains msg ((r # rs) ! j))"
      by simp
    then show ?thesis by blast
  next
    case False
    from Cons.IH show ?thesis
    proof
      assume "\<exists>i < length rs. first_region rs msg = rs ! i \<and> Contains msg (rs ! i)
        \<and> (\<forall>j < i. \<not> Contains msg (rs ! j))"
      then obtain i where i: "i < length rs" "first_region rs msg = rs ! i"
        "Contains msg (rs ! i)" "\<forall>j < i. \<not> Contains msg (rs ! j)" by blast
      have "\<forall>j < Suc i. \<not> Contains msg ((r # rs) ! j)"
      proof (intro allI impI)
        fix j assume "j < Suc i"
        then show "\<not> Contains msg ((r # rs) ! j)"
          using False i(4) by (cases j) auto
      qed
      then have "Suc i < length (r # rs) \<and> first_region (r # rs) msg = (r # rs) ! Suc i
        \<and> Contains msg ((r # rs) ! Suc i) \<and> (\<forall>j < Suc i. \<not> Contains msg ((r # rs) ! j))"
        using i False by simp
      then show ?thesis by blast
    next
      assume "(\<forall>r \<in> set rs. \<not> Contains msg r) \<and> first_region rs msg = ''us-east-1''"
      then show ?thesis using False by simp
    qed
  qed
qed

text \<open>
  Claim C7, amended. Let the first anonymous \<open>ListObjectsV2\<close> (in the region
  resolved for the bucket, \<open>us-east-1\<close> when that is empty or unknown) fail with a
  message that contains \<open>BucketRegionError\<close>, \<open>PermanentRedirect\<close> or "please use
  the correct region". The inspector takes from the message the first region of its
  list of known regions that occurs in it: the region at the least index of the list
  among those the message contains, and \<open>us-east-1\<close> when the message contains none.
  When that region differs from the region just tried and the client configuration
  for it can be loaded, the list is retried exactly once, in that region: the result is
  that of the second attempt (public-read with the sample keys on success; private,
  disabled or unknown by the second error message), and the two calls of
  \<open>ListObjectsV2\<close> are the only ones. When it differs but the client configuration
  for it cannot be loaded, there is no second call and the ACL is unknown. When it does
  not differ there is no retry and the first message decides. There are never more
  than two calls. A first attempt failing with "please use the correct region:
  eu-west-1" whose retry succeeds gives the ACL \<open>public-read\<close>.
\<close>

theorem region_mismatch_retry:
  assumes "region = (if region0 = '''' \<or> region0 = ''unknown'' then ''us-east-1'' else region0)"
    and "load_config env region = None"
    and "list_objects env bucket region False = ListFails msg"
    and "Contains msg ''BucketRegionError'' \<or> Contains msg ''PermanentRedirect''
         \<or> Contains msg ''please use the correct region''"
  shows "((\<exists>i < length known_regions.
             parseRegionFromError msg = known_regions ! i \<and> Contains msg (known_regions ! i)
             \<and> (\<forall>j < i. \<not> Contains msg (known_regions ! j)))
          \<or> ((\<forall>r \<in> set known_regions. \<not> Contains msg r)
              \<and> parseRegionFromError msg = ''us-east-1''))
     \<and> (parseRegionFromError msg \<noteq> region \<and> load_config env (parseRegionFromError msg) = None \<longrightarrow>
          checkPublicAccess_r2 env bucket region0 =
            (case list_objects env bucket (parseRegionFromError msg) True of
               ListSucceeds output \<Rightarrow>
                 ((True, ''public-read'', sample_keys (Contents output) [],
                   (if IsTruncated output = Some True then -2 else int (length (Contents output)))),
                  [region, parseRegionFromError msg])
             | ListFails e \<Rightarrow>
                 ((False,
                   (if Contains e ''AccessDenied'' then ''private''
                    else if Contains e ''AllAccessDisabled'' then ''disabled'' else ''unknown''),
                   [], -1),
                  [region, parseRegionFromError msg])))
     \<and> (parseRegionFromError msg \<noteq> region \<and> load_config env (parseRegionFromError msg) \<noteq> None \<longrightarrow>
          checkPublicAccess_r2 env bucket region0 = ((False, ''unknown'', [], -1), [region]))
     \<and> (parseRegionFromError msg = region \<longrightarrow>
          checkPublicAccess_r2 env bucket region0 =
            ((False,
              (if Contains msg ''AccessDenied'' then ''private''
               else if Contains msg ''AllAccessDisabled'' then ''disabled'' else ''unknown''),
              [], -1),
             [region]))
     \<and> length (snd (checkPublicAccess_r2 env bucket region0)) \<le> 2"
proof -
  let ?r = "parseRegionFromError msg"
  have k: "?r \<in> set known_regions" by (rule parseRegionFromError_known)
  have c: "(\<exists>i < length known_regions.
             ?r = known_regions ! i \<and> Contains msg (known_regions ! i)
             \<and> (\<forall>j < i. \<not> Contains msg (known_regions ! j)))
          \<or> ((\<forall>r \<in> set known_regions. \<not> Contains msg r) \<and> ?r = ''us-east-1'')"
    unfolding parseRegionFromError_def by (rule first_region_first)
  note step = retry_step[OF assms]
  have a: "?r \<noteq> region \<and> load_config env ?r = None \<longrightarrow>
          checkPublicAccess_r2 env bucket region0 =
            (case list_objects env bucket ?r True of
               ListSucceeds output \<Rightarrow>
                 ((True, ''public-read'', sample_keys (Contents output) [],
                   (if IsTruncated output = Some True then -2 else int (length (Contents output)))),
                  [region, ?r])
             | ListFails e \<Rightarrow>
                 ((False,
                   (if Contains e ''AccessDenied'' then ''private''
                    else if Contains e ''AllAccessDisabled'' then ''disabled'' else ''unknown''),
                   [], -1),
                  [region, ?r]))"
  proof (intro impI)
    assume h: "?r \<noteq> region \<and> load_config env ?r = None"
    show "checkPublicAccess_r2 env bucket region0 =
            (case list_objects env bucket ?r True of
               ListSucceeds output \<Rightarrow>
                 ((True, ''public-read'', sample_keys (Contents output) [],
                   (if IsTruncated output = Some True then -2 else int (length (Contents output)))),
                  [region, ?r])
             | ListFails e \<Rightarrow>
                 ((False,
                   (if Contains e ''AccessDenied'' then ''private''
                    else if Contains e ''AllAccessDisabled'' then ''disabled'' else ''unknown''),
                   [], -1),
                  [region, ?r]))"
      unfolding checkPublicAccess_r2_def step
      using h second_attempt[OF k, of env bucket]
      by (simp split: list_outcome.split)
  qed
  have f: "?r \<noteq> region \<and> load_config env ?r \<noteq> None \<longrightarrow>
          checkPublicAccess_r2 env bucket region0 = ((False, ''unknown'', [], -1), [region])"
  proof (intro impI)
    assume h: "?r \<noteq> region \<and> load_config env ?r \<noteq> None"
    have "checkPublicAccessWithRetry env bucket ?r True = ((False, ''unknown'', [], -1), [])"
      unfolding retried_no_recursion Let_def
      using known_region_plain[OF k] h by auto
    then show "checkPublicAccess_r2 env bucket region0 = ((False, ''unknown'', [], -1), [region])"
      unfolding checkPublicAccess_r2_def step using h by simp
  qed
  have b: "?r = region \<longrightarrow>
          checkPublicAccess_r2 env bucket region0 =
            ((False,
              (if Contains msg ''AccessDenied'' then ''private''
               else if Contains msg ''AllAccessDisabled'' then ''disabled'' else ''unknown''),
              [], -1),
             [region])"
    unfolding checkPublicAccess_r2_def step by simp
  have l: "length (snd (checkPublicAccess_r2 env bucket region0)) \<le> 2"
    unfolding checkPublicAccess_r2_def by (rule calls_at_most_two)
  from c a f b l show ?thesis by (intro conjI)
qed

theorem region_mismatch_retry_witness:
  "checkPublicAccess_r2
     \<lparr>load_config = (\<lambda>region. None),
      get_bucket_location = (\<lambda>bucket. LocationSucceeds ''''),
      head_bucket = (\<lambda>bucket. HeadResponds ''''),
      list_objects = (\<lambda>bucket region retried.
         if region = ''eu-west-1''
         then ListSucceeds \<lparr>Contents = [Some ''index.html'', None, Some ''logo.png''],
                IsTruncated = Some False, KeyCount = Some 3\<rparr>
         else ListFails ''BucketRegionError: incorrect region, please use the correct region: eu-west-1''),
      now = 7\<rparr> ''acme-assets'' ''unknown''
   = ((True, ''public-read'', [''index.html'', ''logo.png''], 3), [''us-east-1'', ''eu-west-1''])
   \<and> checkPublicAccess_r2
     \<lparr>load_config = (\<lambda>region. if region = ''us-east-2'' then Some ''no configuration'' else None),
      get_bucket_location = (\<lambda>bucket. LocationSucceeds ''''),
      head_bucket = (\<lambda>bucket. HeadResponds ''''),
      list_objects = (\<lambda>bucket region retried.
         ListFails ''PermanentRedirect: ap-southeast-2 or us-east-2''),
      now = 7\<rparr> ''acme-assets'' ''eu-west-1''
   = ((False, ''unknown'', [], -1), [''eu-west-1''])"
proof -
  let ?msg = "''BucketRegionError: incorrect region, please use the correct region: eu-west-1''"
  let ?env = "\<lparr>load_config = (\<lambda>region. None),
      get_bucket_location = (\<lambda>bucket. LocationSucceeds ''''),
      head_bucket = (\<lambda>bucket. HeadResponds ''''),
      list_objects = (\<lambda>bucket region retried.
         if region = ''eu-west-1''
         then ListSucceeds \<lparr>Contents = [Some ''index.html'', None, Some ''logo.png''],
                IsTruncated = Some False, KeyCount = Some 3\<rparr>
         else ListFails ?msg),
      now = 7\<rparr>"
  have 1: "''us-east-1'' = (if ''unknown'' = '''' \<or> ''unknown'' = ''unknown'' then ''us-east-1'' else ''unknown'')"
    by simp
  have 2: "load_config ?env ''us-east-1'' = None" by simp
  have 3: "list_objects ?env ''acme-assets'' ''us-east-1'' False = ListFails ?msg" by simp
  have 4: "Contains ?msg ''BucketRegionError'' \<or> Contains ?msg ''PermanentRedirect''
         \<or> Contains ?msg ''please use the correct region''" by code_simp
  have p: "parseRegionFromError ?msg = ''eu-west-1''" by code_simp
  have s: "sample_keys [Some ''index.html'', None, Some ''logo.png''] [] = [''index.html'', ''logo.png'']"
    by code_simp
  have first: "checkPublicAccess_r2 ?env ''acme-assets'' ''unknown''
      = ((True, ''public-read'', [''index.html'', ''logo.png''], 3), [''us-east-1'', ''eu-west-1''])"
    using region_mismatch_retry[OF 1 2 3 4, THEN conjunct2, THEN conjunct1]
    unfolding p by (simp add: s)
  let ?msg2 = "''PermanentRedirect: ap-southeast-2 or us-east-2''"
  let ?env2 = "\<lparr>load_config = (\<lambda>region. if region = ''us-east-2'' then Some ''no configuration'' else None),
      get_bucket_location = (\<lambda>bucket. LocationSucceeds ''''),
      head_bucket = (\<lambda>bucket. HeadResponds ''''),
      list_objects = (\<lambda>bucket region retried. ListFails ?msg2),
      now = 7\<rparr>"
  have 5: "''eu-west-1'' = (if ''eu-west-1'' = '''' \<or> ''eu-west-1'' = ''unknown'' then ''us-east-1'' else ''eu-west-1'')"
    by simp
  have 6: "load_config ?env2 ''eu-west-1'' = None" by simp
  have 7: "list_objects ?env2 ''acme-assets'' ''eu-west-1'' False = ListFails ?msg2" by simp
  have 8: "Contains ?msg2 ''BucketRegionError'' \<or> Contains ?msg2 ''PermanentRedirect''
         \<or> Contains ?msg2 ''please use the correct region''" by code_simp
  have q: "parseRegionFromError ?msg2 = ''us-east-2''" by code_simp
  have second: "checkPublicAccess_r2 ?env2 ''acme-assets'' ''eu-west-1''
      = ((False, ''unknown'', [], -1), [''eu-west-1''])"
    using region_mismatch_retry[OF 5 6 7 8, THEN conjunct2, THEN conjunct2, THEN conjunct1]
    unfolding q by simp
  from first second show ?thesis by (intro conjI)
qed

text \<open>
  Claim C10. Every result \<open>Inspect\<close> returns has \<open>Exists\<close> set, whatever the region
  lookup and the list attempt did: the field is set when the result is made and never
  written again. The later revision always returns; the revision of
  pkg/scanner/inspector.go returns unless a successful list answer has no \<open>KeyCount\<close>
  (the dereference of a \<open>nil\<close> pointer), so it returns whenever every successful answer
  carries one.
\<close>

theorem Inspect_Exists:
  "ir_Exists (Inspect_r2 env bucket)
   \<and> (\<forall>r. Inspect env bucket = Some r \<longrightarrow> ir_Exists r)
   \<and> ((\<forall>region output. list_objects env bucket region False = ListSucceeds output
          \<longrightarrow> KeyCount output \<noteq> None)
        \<longrightarrow> (\<exists>r. Inspect env bucket = Some r))"
proof -
  have 1: "ir_Exists (Inspect_r2 env bucket)"
    unfolding Inspect_r2_def Let_def by (simp split: prod.split option.split)
  have 2: "\<forall>r. Inspect env bucket = Some r \<longrightarrow> ir_Exists r"
    unfolding Inspect_def Let_def by (auto split: prod.splits option.splits)
  have 3: "(\<forall>region output. list_objects env bucket region False = ListSucceeds output
          \<longrightarrow> KeyCount output \<noteq> None)
        \<longrightarrow> (\<exists>r. Inspect env bucket = Some r)"
  proof
    assume h: "\<forall>region output. list_objects env bucket region False = ListSucceeds output
          \<longrightarrow> KeyCount output \<noteq> None"
    have "\<And>region0. checkPublicAccess env bucket region0 \<noteq> None"
    proof -
      fix region0
      define region where
        "region = (if region0 = '''' \<or> region0 = ''unknown'' then ''us-east-1'' else region0)"
      show "checkPublicAccess env bucket region0 \<noteq> None"
      proof (cases "list_objects env bucket region False")
        case (ListFails err)
        then show ?thesis
          unfolding checkPublicAccess_def Let_def region_def[symmetric]
          by (auto split: option.split)
      next
        case (ListSucceeds out)
        with h obtain n where "KeyCount out = Some n" by blast
        with ListSucceeds show ?thesis
          unfolding checkPublicAccess_def Let_def region_def[symmetric]
          by (auto split: option.split)
      qed
    qed
    moreover obtain region err where g: "getBucketRegion env bucket = (region, err)"
      by (cases "getBucketRegion env bucket")
    ultimately obtain isPublic acl objects count calls where
      "checkPublicAccess env bucket region = Some ((isPublic, acl, objects, count), calls)"
      by (metis option.exhaust surj_pair)
    then show "\<exists>r. Inspect env bucket = Some r"
      unfolding Inspect_def Let_def g by simp
  qed
  from 1 2 3 show ?thesis by (intro conjI)
qed

theorem Inspect_Exists_witness:
  "(\<exists>r. Inspect
     \<lparr>load_config = (\<lambda>region. None),
      get_bucket_location = (\<lambda>bucket. LocationFails ''AccessDenied: Access Denied''),
      head_bucket = (\<lambda>bucket. HeadTransportFails),
      list_objects = (\<lambda>bucket region retried.
         ListSucceeds \<lparr>Contents = [Some ''index.html''], IsTruncated = None, KeyCount = Some 1\<rparr>),
      now = 7\<rparr> ''acme-assets'' = Some r \<and> ir_Exists r)"
proof -
  let ?env = "\<lparr>load_config = (\<lambda>region. None),
      get_bucket_location = (\<lambda>bucket. LocationFails ''AccessDenied: Access Denied''),
      head_bucket = (\<lambda>bucket. HeadTransportFails),
      list_objects = (\<lambda>bucket region retried.
         ListSucceeds \<lparr>Contents = [Some ''index.html''], IsTruncated = None, KeyCount = Some 1\<rparr>),
      now = 7\<rparr>"
  have h: "\<forall>region output. list_objects ?env ''acme-assets'' region False = ListSucceeds output
          \<longrightarrow> KeyCount output \<noteq> None"
    by auto
  from Inspect_Exists[of ?env "''acme-assets''"] h show ?thesis by blast
qed

end
